theory Spec2Isabelle
  imports Complex_Main "HOL-Library.Word"
begin

section \<open>The menu controller of pISO (src/pISO.old/src/piso.cpp)\<close>

text \<open>
  The class \<open>pISO\<close> owns the virtual drives, the list of menu items and the selection
  cursor. Only \<open>piso.cpp\<close> is available; the classes it uses (\<open>VirtualDrive\<close>,
  \<open>GUIListItem\<close>, \<open>Bitmap\<close>, the LVM wrapper, the logger) are declared in headers that are
  not. What the embedding needs of them is written down below, each time under a comment
  that says so. Two parts of the file are left out: \<open>init_usbgx\<close>, which is never called,
  and \<open>on_select\<close>, \<open>on_next\<close> and \<open>on_prev\<close>, which log a line and hand over to
  \<open>GUIListItem\<close>.
\<close>

subsection \<open>Numbers as text\<close>

text \<open>\<open>std::to_string\<close> on an unsigned value: its decimal digits, no leading zero.\<close>

definition digit_char :: "nat \<Rightarrow> char" where
  "digit_char d = char_of (48 + d)"

fun to_string :: "nat \<Rightarrow> string" where
  "to_string n = (if n < 10 then [digit_char n] else to_string (n div 10) @ [digit_char (n mod 10)])"

declare to_string.simps [simp del]

text \<open>\<open>std::to_string\<close> on an \<open>int\<close>.\<close>

definition to_string_int :: "int \<Rightarrow> string" where
  "to_string_int i = (if i < 0 then CHR ''-'' # to_string (nat (- i)) else to_string (nat i))"

subsection \<open>Drives, menu items and the controller's state\<close>

text \<open>
  The four formats that the two \<open>switch\<close> statements of \<open>add_drive\<close> distinguish, and the
  three mount states of section 3 of the specification.
\<close>

datatype DriveFormat = WINDOWS | LINUX | MAC | UNIVERSAL

datatype MountState = UNMOUNTED | MOUNTED_INTERNAL | MOUNTED_EXTERNAL

text \<open>
  A \<open>VirtualDrive\<close> is a menu item: besides its name and mount state it carries the focus flag
  that every item has.
\<close>

record VirtualDrive =
  name :: string
  mount_state :: MountState
  drive_focus :: bool

text \<open>
  Modelled from the spec: the constructor \<open>VirtualDrive(name)\<close> (virtualdrive.cpp is missing).
  The specification has one sentence on the mount state of a drive that the constructor has
  built and nothing else has touched, P2 of section 8: a drive that the rebuild from the
  backend's report yields has \<open>mount_state\<close> mounted-external. The rebuild does nothing to a
  drive but construct it, so the constructed drive is mounted-external. Nothing in the
  specification says that a new item has the focus; it has not.
\<close>

definition new_VirtualDrive :: "string \<Rightarrow> VirtualDrive" where
  "new_VirtualDrive nm = \<lparr>name = nm, mount_state = MOUNTED_EXTERNAL, drive_focus = False\<rparr>"

text \<open>
  Modelled from the spec: \<open>VirtualDrive::mount_external\<close> (missing). Section 4.1, step 6: the
  drive becomes mounted-external.
\<close>

definition mount_external :: "VirtualDrive \<Rightarrow> VirtualDrive" where
  "mount_external d = d\<lparr>mount_state := MOUNTED_EXTERNAL\<rparr>"

text \<open>
  Modelled from the spec: \<open>VirtualDrive::operator==\<close> (missing), which \<open>std::find\<close> uses in
  \<open>remove_drive\<close>. Section 4.1: drives are looked up by name-equality.
\<close>

definition drive_eq :: "VirtualDrive \<Rightarrow> VirtualDrive \<Rightarrow> bool" where
  "drive_eq a b = (name a = name b)"

text \<open>
  \<open>m_list_items\<close> holds pointers: to the elements of the vector \<open>m_drives\<close>, to \<open>m_newdrive\<close>
  and to \<open>m_options\<close>. A pointer to the \<open>i\<close>-th element of the vector is \<open>DriveRef i\<close>.
\<close>

datatype item_ref = DriveRef nat | NewDriveRef | OptionsRef

text \<open>The virtual calls the controller makes on its items, in the order it makes them.\<close>

datatype gui_call = OnLoseFocus item_ref | OnFocus item_ref

text \<open>One logical volume as \<open>lvs\<close> reports it: the JSON fields the code reads, as strings.\<close>

record volume =
  lv_name :: string
  lv_attr :: string
  data_percent :: string
  lv_size :: string

text \<open>A command handed to \<open>lvm_run\<close> or to \<open>run_command\<close>, with its full text.\<close>

datatype backend_call = Lvm string | Shell string

text \<open>
  The state: the members of \<open>pISO\<close>, and what the code reaches outside of it. \<open>m_selection\<close>
  is an iterator into \<open>m_list_items\<close>, kept as its position; \<open>end()\<close> is the length of the
  list. \<open>volumes\<close> is what the LVM backend holds, \<open>calls\<close> the commands issued so far, \<open>log_lines\<close>
  the lines written with \<open>piso_log\<close>, and \<open>gui_calls\<close> the focus notifications sent to items.
\<close>

record pISO =
  m_drives :: "VirtualDrive list"
  m_newdrive_focus :: bool
  m_options_focus :: bool
  m_list_items :: "item_ref list"
  m_selection :: nat
  gui_calls :: "gui_call list"
  volumes :: "volume list"
  calls :: "backend_call list"
  log_lines :: "string list"

definition piso_log :: "string \<Rightarrow> pISO \<Rightarrow> pISO" where
  "piso_log msg s = s\<lparr>log_lines := log_lines s @ [msg]\<rparr>"

subsection \<open>Focus notifications\<close>

text \<open>
  Modelled from the spec: \<open>on_focus\<close> and \<open>on_lose_focus\<close> of the three kinds of item (their
  classes are missing). Section 3: an item has an implicit focus flag, changed only through
  these two calls; \<open>on_focus\<close> sets it and \<open>on_lose_focus\<close> clears it. A pointer to a vector
  element that no longer exists is not dereferenced by the code modelled here; for such a
  pointer the model changes no flag.
\<close>

definition set_focus :: "item_ref \<Rightarrow> bool \<Rightarrow> pISO \<Rightarrow> pISO" where
  "set_focus r b s =
     (case r of
        DriveRef i \<Rightarrow>
          (if i < length (m_drives s)
           then s\<lparr>m_drives := (m_drives s)[i := (m_drives s ! i)\<lparr>drive_focus := b\<rparr>]\<rparr>
           else s)
      | NewDriveRef \<Rightarrow> s\<lparr>m_newdrive_focus := b\<rparr>
      | OptionsRef \<Rightarrow> s\<lparr>m_options_focus := b\<rparr>)"

definition on_lose_focus :: "item_ref \<Rightarrow> pISO \<Rightarrow> pISO" where
  "on_lose_focus r s = (set_focus r False s)\<lparr>gui_calls := gui_calls s @ [OnLoseFocus r]\<rparr>"

definition on_focus :: "item_ref \<Rightarrow> pISO \<Rightarrow> pISO" where
  "on_focus r s = (set_focus r True s)\<lparr>gui_calls := gui_calls s @ [OnFocus r]\<rparr>"

text \<open>Whether the item a pointer refers to has the focus.\<close>

definition has_focus :: "pISO \<Rightarrow> item_ref \<Rightarrow> bool" where
  "has_focus s r =
     (case r of
        DriveRef i \<Rightarrow> i < length (m_drives s) \<and> drive_focus (m_drives s ! i)
      | NewDriveRef \<Rightarrow> m_newdrive_focus s
      | OptionsRef \<Rightarrow> m_options_focus s)"

text \<open>
  Modelled from the spec: \<open>GUIListItem::has_selection\<close> (missing). Section 4.2, steps 4 and 5:
  there is a selection when the cursor refers to an element, that is, when it is not \<open>end()\<close>.
\<close>

definition has_selection :: "pISO \<Rightarrow> bool" where
  "has_selection s = (m_selection s < length (m_list_items s))"

subsection \<open>\<open>pISO::update_list_items\<close>\<close>

text \<open>The loop \<open>for (const auto &item : m_list_items) item->on_lose_focus();\<close>\<close>

fun lose_focus_all :: "item_ref list \<Rightarrow> pISO \<Rightarrow> pISO" where
  "lose_focus_all [] s = s"
| "lose_focus_all (r # rs) s = lose_focus_all rs (on_lose_focus r s)"

definition update_list_items :: "pISO \<Rightarrow> pISO" where
  "update_list_items s0 =
     (let s1 = piso_log ''pISO: Updating menu items'' s0;
          s2 = s1\<lparr>m_list_items := []\<rparr>;
          s3 = s2\<lparr>m_list_items := m_list_items s2 @ map DriveRef [0..<length (m_drives s2)]\<rparr>;
          s4 = s3\<lparr>m_list_items := m_list_items s3 @ [NewDriveRef]\<rparr>;
          s5 = s4\<lparr>m_list_items := m_list_items s4 @ [OptionsRef]\<rparr>;
          s6 = lose_focus_all (m_list_items s5) s5;
          s7 = s6\<lparr>m_selection := 0\<rparr>
      in if has_selection s7 then on_focus (m_list_items s7 ! m_selection s7) s7 else s7)"

subsection \<open>The storage backend and the environment\<close>

text \<open>
  The ways the process ends early: \<open>piso_error\<close> with its message, which is fatal, a backend
  command that fails, which is fatal too (the command is kept), and the two exceptions of
  the string conversions, which nothing catches.

  The record \<open>config\<close> holds what the code takes from its surroundings: the constants of
  \<open>config.hpp\<close> and \<open>display.hpp\<close> (both missing), the environment variable that
  \<open>config_getenv\<close> reads, and what is taken as given: \<open>std::stof\<close> (its value or the
  exception it throws; a \<open>float\<close> is read as the rational number it stands for),
  \<open>percent_free_of\<close>, which is the \<open>int\<close> that the \<open>float\<close> arithmetic of
  \<open>int percent_free = 100 - percent_used()\<close> gives for a value of \<open>percent_used()\<close> (the
  subtraction rounds to a \<open>float\<close> and the conversion is into 32 bits, neither of which is
  worked out here), and \<open>render_text\<close> of \<open>font.hpp\<close>. The record \<open>Bitmap\<close> is declared first
  because \<open>render_text\<close> returns one.
\<close>

datatype error = Fatal string | command_failed string | invalid_argument | out_of_range

record Bitmap =
  width :: nat
  height :: nat
  pixel :: "nat \<Rightarrow> nat \<Rightarrow> bool"

record config =
  VOLUME_GROUP_NAME :: string
  THINPOOL_NAME :: string
  PISO_SCRIPTS_PATH :: string
  MENU_LEFT_SPACE :: nat
  SIDEBAR_SPACE :: nat
  Display_width :: nat
  Display_height :: nat
  stof :: "string \<Rightarrow> error + rat"
  percent_free_of :: "rat \<Rightarrow> int"
  render_text :: "string \<Rightarrow> Bitmap"

text \<open>
  Modelled from the spec: \<open>lvm_run\<close> and \<open>run_command\<close> (lvmwrapper.cpp and the shell utility
  are missing). Section 6: the backend creates and deletes volumes by name and the shell
  utility runs a command line and returns its output. Sections 4.1 and 7: a backend command
  that fails is fatal, it ends the process. A call is recorded with the text that the
  arguments spell out when written one after the other. \<open>lvm_run\<close> applies the command's
  effect to the backend's volumes; when the backend refuses the command (the effect is
  \<open>None\<close>) nothing is changed and the process ends.
\<close>

definition lvm_run :: "string \<Rightarrow> (volume list \<Rightarrow> volume list option) \<Rightarrow> pISO \<Rightarrow> error + pISO" where
  "lvm_run cmd effect s =
     (case effect (volumes s) of
        None \<Rightarrow> Inl (command_failed cmd)
      | Some vs \<Rightarrow> Inr (s\<lparr>volumes := vs, calls := calls s @ [Lvm cmd]\<rparr>))"

definition run_command :: "string \<Rightarrow> pISO \<Rightarrow> pISO" where
  "run_command cmd s = s\<lparr>calls := calls s @ [Shell cmd]\<rparr>"

text \<open>
  Modelled from the spec: what \<open>lvcreate -V\<close> and \<open>lvremove\<close> do to the backend. Section 6:
  \<open>create_volume(name, size, pool)\<close> adds a thin-provisioned volume, which the backend flags
  as virtual (its attribute string starts with \<open>V\<close>); a drive's name is the name of its
  volume, one to one, so the backend refuses to create a volume under a name it already
  holds. \<open>delete_volume(name)\<close> removes the volume of that name. No other failure of a
  command (a full pool, a device that is missing) is part of the model.
\<close>

definition create_volume :: "string \<Rightarrow> 64 word \<Rightarrow> volume list \<Rightarrow> volume list option" where
  "create_volume nm sz vs =
     (if nm \<in> set (map lv_name vs) then None
      else Some (vs @ [\<lparr>lv_name = nm, lv_attr = ''Vwi-a-tz--'', data_percent = ''0.00'',
                        lv_size = to_string (unat sz) @ ''B''\<rparr>]))"

definition delete_volume :: "string \<Rightarrow> volume list \<Rightarrow> volume list option" where
  "delete_volume nm vs = Some (filter (\<lambda>v. lv_name v \<noteq> nm) vs)"

text \<open>
  Modelled from the spec: \<open>lvm_lvs_report\<close> (missing). Section 6: \<open>report(filter)\<close> gives the
  list of volume records; with a volume name, the record of that volume.
\<close>

definition lvm_lvs_report :: "pISO \<Rightarrow> volume list" where
  "lvm_lvs_report s = volumes s"

definition lvm_lvs_report_of :: "string \<Rightarrow> pISO \<Rightarrow> volume option" where
  "lvm_lvs_report_of nm s = find (\<lambda>v. lv_name v = nm) (volumes s)"

subsection \<open>\<open>pISO::rebuild_drives_from_volumes\<close>\<close>

text \<open>
  \<open>volume["lv_attr"].asString()[0] == 'V'\<close>: on the empty string, \<open>operator[]\<close> at 0 gives the
  terminating null character, which is not \<open>V\<close>.
\<close>

definition is_virtual :: "volume \<Rightarrow> bool" where
  "is_virtual v = (case lv_attr v of [] \<Rightarrow> False | c # _ \<Rightarrow> c = CHR ''V'')"

fun rebuild_loop :: "volume list \<Rightarrow> pISO \<Rightarrow> pISO" where
  "rebuild_loop [] s = s"
| "rebuild_loop (v # vs) s =
     (if is_virtual v
      then (let s1 = piso_log (''Found volume '' @ lv_name v) s;
                s2 = s1\<lparr>m_drives := m_drives s1 @ [new_VirtualDrive (lv_name v)]\<rparr>
            in rebuild_loop vs s2)
      else rebuild_loop vs s)"

definition rebuild_drives_from_volumes :: "pISO \<Rightarrow> pISO" where
  "rebuild_drives_from_volumes s0 =
     (let s1 = piso_log ''Rebuilding VirtualDrives from lvm volumes'' s0;
          s2 = s1\<lparr>m_drives := []\<rparr>;
          lvs = lvm_lvs_report s2;
          s3 = rebuild_loop lvs s2
      in update_list_items s3)"

subsection \<open>\<open>pISO::add_drive\<close>\<close>

text \<open>The two characters, a backslash and a newline, that end a line of the \<open>parted\<close> script.\<close>

definition backslash_newline :: string where
  "backslash_newline = [CHR 0x5C, CHR 0x0A]"

text \<open>\<open>std::getline(partitions, first_partition, '\n')\<close>: the text before the first newline.\<close>

definition getline :: "string \<Rightarrow> string" where
  "getline out = takeWhile (\<lambda>c. c \<noteq> CHR 0x0A) out"

text \<open>
  \<open>add_drive\<close> returns a reference to the new drive; the model returns the drive and the new
  state, or the error that ended the process. \<open>loopback_res\<close> is what the helper script
  prints, the output of the third command.
\<close>

definition add_drive :: "config \<Rightarrow> 64 word \<Rightarrow> DriveFormat \<Rightarrow> string \<Rightarrow> pISO \<Rightarrow> error + VirtualDrive \<times> pISO" where
  "add_drive cfg sz format loopback_res s0 =
     (let s1 = piso_log (''Adding new drive with size='' @ to_string (unat sz)) s0;
          nm = ''Drive'' @ to_string (length (m_drives s1) + 1)
      in case lvm_run (''lvcreate -V '' @ to_string (unat sz) @ ''B -T '' @ VOLUME_GROUP_NAME cfg
                          @ ''/'' @ THINPOOL_NAME cfg @ '' -n '' @ nm)
                      (create_volume nm sz) s1 of
           Inl e \<Rightarrow> Inl e
         | Inr s2 \<Rightarrow>
             (let s3 = s2\<lparr>m_drives := m_drives s2 @ [new_VirtualDrive nm]\<rparr>;
                  s4 = (case format of
                          MAC \<Rightarrow> run_command (''parted --script /dev/'' @ VOLUME_GROUP_NAME cfg @ ''/'' @ nm
                                   @ '' '' @ backslash_newline @ '' mklabel msdos '' @ backslash_newline
                                   @ '' mkpart primary ntfs 0% 100%'') s3
                        | UNIVERSAL \<Rightarrow> run_command (''parted --script /dev/'' @ VOLUME_GROUP_NAME cfg @ ''/'' @ nm
                                   @ '' '' @ backslash_newline @ '' mklabel msdos '' @ backslash_newline
                                   @ '' mkpart primary ntfs 0% 100%'') s3
                        | WINDOWS \<Rightarrow> run_command (''parted --script /dev/'' @ VOLUME_GROUP_NAME cfg @ ''/'' @ nm
                                   @ '' '' @ backslash_newline @ '' mklabel msdos '' @ backslash_newline
                                   @ '' mkpart primary ntfs 0% 100%'') s3
                        | LINUX \<Rightarrow> run_command (''parted --script /dev/'' @ VOLUME_GROUP_NAME cfg @ ''/'' @ nm
                                   @ '' '' @ backslash_newline @ '' mklabel msdos '' @ backslash_newline
                                   @ '' mkpart primary ext3 0% 100%'') s3);
                  scripts_path = PISO_SCRIPTS_PATH cfg;
                  vdrive_script = scripts_path @ ''/vdrive.sh'';
                  s5 = run_command (''sh '' @ vdrive_script @ '' mount-internal-basic '' @ nm) s4;
                  first_partition = getline loopback_res;
                  s6 = (case format of
                          WINDOWS \<Rightarrow> run_command (''mkfs.ntfs -f '' @ first_partition) s5
                        | LINUX \<Rightarrow> run_command (''mkfs.ext3 '' @ first_partition) s5
                        | MAC \<Rightarrow> run_command (''mkfs.exfat '' @ first_partition) s5
                        | UNIVERSAL \<Rightarrow> run_command (''mkfs.exfat '' @ first_partition) s5);
                  s7 = s6\<lparr>m_drives := butlast (m_drives s6) @ [mount_external (last (m_drives s6))]\<rparr>;
                  s8 = update_list_items s7
              in Inr (last (m_drives s8), s8)))"

subsection \<open>\<open>pISO::remove_drive\<close>\<close>

text \<open>\<open>std::find\<close>: the position of the first element equal to the drive, if there is one.\<close>

fun find_drive :: "VirtualDrive list \<Rightarrow> VirtualDrive \<Rightarrow> nat option" where
  "find_drive [] d = None"
| "find_drive (x # xs) d =
     (if drive_eq x d then Some 0 else map_option Suc (find_drive xs d))"

text \<open>\<open>m_drives.erase(drive_iter)\<close>\<close>

definition erase :: "'a list \<Rightarrow> nat \<Rightarrow> 'a list" where
  "erase xs i = take i xs @ drop (Suc i) xs"

definition remove_drive :: "config \<Rightarrow> VirtualDrive \<Rightarrow> pISO \<Rightarrow> error + pISO" where
  "remove_drive cfg drive s0 =
     (let s1 = piso_log (''Removing drive '' @ name drive) s0
      in case find_drive (m_drives s1) drive of
           None \<Rightarrow> Inr (piso_log ''Warning: drive not found'' s1)
         | Some drive_iter \<Rightarrow>
             (case lvm_run (''lvremove '' @ VOLUME_GROUP_NAME cfg @ ''/'' @ name drive @ '' -y'')
                           (delete_volume (name drive)) s1 of
                Inl e \<Rightarrow> Inl e
              | Inr s2 \<Rightarrow>
                  (let s3 = s2\<lparr>m_drives := erase (m_drives s2) drive_iter\<rparr>
                   in Inr (update_list_items s3))))"

subsection \<open>\<open>pISO::percent_used\<close> and \<open>pISO::size\<close>\<close>

text \<open>
  The loop of \<open>percent_used\<close>: the first volume of the report whose name is the thin pool's
  decides, and what \<open>std::stof\<close> makes of its \<open>data_percent\<close> is returned; \<open>piso_error\<close> ends
  the process when there is none.
\<close>

fun percent_used_loop :: "config \<Rightarrow> volume list \<Rightarrow> error + rat" where
  "percent_used_loop cfg [] = Inl (Fatal ''pISO: unable to locate thinpool'')"
| "percent_used_loop cfg (v # vs) =
     (if lv_name v = THINPOOL_NAME cfg
      then stof cfg (data_percent v)
      else percent_used_loop cfg vs)"

definition percent_used :: "config \<Rightarrow> pISO \<Rightarrow> error + rat" where
  "percent_used cfg s = (let lvs = lvm_lvs_report s in percent_used_loop cfg lvs)"

text \<open>
  \<open>std::stoull\<close> in base 10: white space is skipped, a sign is accepted, the longest run of
  digits is read and what follows it is ignored. No digit at all is \<open>invalid_argument\<close>, a
  value that does not fit 64 bits is \<open>out_of_range\<close>, and a minus sign negates the value in
  the unsigned type.
\<close>

definition is_space :: "char \<Rightarrow> bool" where
  "is_space c = (c \<in> set [CHR 0x20, CHR 0x09, CHR 0x0A, CHR 0x0B, CHR 0x0C, CHR 0x0D])"

definition digit_of :: "char \<Rightarrow> nat option" where
  "digit_of c = (let k = (of_char c :: nat) in if 48 \<le> k \<and> k \<le> 57 then Some (k - 48) else None)"

fun digits_value :: "nat \<Rightarrow> string \<Rightarrow> nat" where
  "digits_value acc [] = acc"
| "digits_value acc (c # cs) =
     (case digit_of c of None \<Rightarrow> acc | Some d \<Rightarrow> digits_value (10 * acc + d) cs)"

definition stoull :: "string \<Rightarrow> error + 64 word" where
  "stoull str =
     (let s1 = dropWhile is_space str;
          neg = (case s1 of c # _ \<Rightarrow> c = CHR ''-'' | [] \<Rightarrow> False);
          s2 = (case s1 of c # cs \<Rightarrow> (if c = CHR ''-'' \<or> c = CHR ''+'' then cs else s1) | [] \<Rightarrow> s1)
      in case s2 of
           [] \<Rightarrow> Inl invalid_argument
         | c # _ \<Rightarrow>
             (if digit_of c = None then Inl invalid_argument
              else (let v = digits_value 0 s2
                    in if 2 ^ 64 \<le> v then Inl out_of_range
                       else Inr (if neg then - word_of_nat v else word_of_nat v))))"

text \<open>
  \<open>size\<close> asks for the report of the thin pool alone, in bytes, and converts the text of its
  \<open>lv_size\<close>. Modelled from the spec: the report of one volume when the backend has no such
  volume (missing with \<open>lvm_lvs_report\<close>). Section 4.1: a backend command that fails is
  fatal.
\<close>

definition size_pISO :: "config \<Rightarrow> pISO \<Rightarrow> error + 64 word" where
  "size_pISO cfg s =
     (case lvm_lvs_report_of (THINPOOL_NAME cfg) s of
        None \<Rightarrow> Inl (Fatal ''lvm_lvs_report'')
      | Some v \<Rightarrow> (let sizestr = lv_size v in stoull sizestr))"

subsection \<open>Bitmaps\<close>

text \<open>
  Modelled from the spec: the class \<open>Bitmap\<close> (bitmap.hpp is missing). Section 6 names its
  operations: \<open>blit(src, offset[, extend])\<close>, \<open>expand_width\<close>, \<open>expand_height\<close> and
  \<open>rotate(direction)\<close>; section 4.3 says what the compositor relies on: a blit that does not
  extend clips what falls outside the target and overwrites what was there, one that extends
  grows the target to hold the source. A bitmap is its two dimensions and its pixels, read
  at column \<open>x\<close> and row \<open>y\<close>; outside of its dimensions it has no pixel set.
\<close>

definition get_pixel :: "Bitmap \<Rightarrow> nat \<Rightarrow> nat \<Rightarrow> bool" where
  "get_pixel b x y = (x < width b \<and> y < height b \<and> pixel b x y)"

definition new_Bitmap :: "nat \<Rightarrow> nat \<Rightarrow> Bitmap" where
  "new_Bitmap w h = \<lparr>width = w, height = h, pixel = (\<lambda>x y. False)\<rparr>"

definition covers :: "Bitmap \<Rightarrow> int \<times> int \<Rightarrow> nat \<Rightarrow> nat \<Rightarrow> bool" where
  "covers src pos x y =
     (fst pos \<le> int x \<and> int x < fst pos + int (width src) \<and>
      snd pos \<le> int y \<and> int y < snd pos + int (height src))"

definition blit :: "Bitmap \<Rightarrow> Bitmap \<Rightarrow> int \<times> int \<Rightarrow> bool \<Rightarrow> Bitmap" where
  "blit dst src pos ext =
     \<lparr>width = (if ext then max (width dst) (nat (fst pos + int (width src))) else width dst),
      height = (if ext then max (height dst) (nat (snd pos + int (height src))) else height dst),
      pixel = (\<lambda>x y. if covers src pos x y
                      then get_pixel src (nat (int x - fst pos)) (nat (int y - snd pos))
                      else get_pixel dst x y)\<rparr>"

definition expand_height :: "Bitmap \<Rightarrow> nat \<Rightarrow> Bitmap" where
  "expand_height b n = \<lparr>width = width b, height = height b + n, pixel = get_pixel b\<rparr>"

definition expand_width :: "Bitmap \<Rightarrow> nat \<Rightarrow> Bitmap" where
  "expand_width b n = \<lparr>width = width b + n, height = height b, pixel = get_pixel b\<rparr>"

text \<open>\<open>for (auto &pixel : bitmap[0]) pixel = 1;\<close> sets every pixel of the first row.\<close>

definition fill_row0 :: "Bitmap \<Rightarrow> Bitmap" where
  "fill_row0 b = b\<lparr>pixel := (\<lambda>x y. if y = 0 then True else pixel b x y)\<rparr>"

text \<open>\<open>rotate(Bitmap::Direction::Left)\<close>: a quarter turn, the dimensions change places.\<close>

definition rotate_left :: "Bitmap \<Rightarrow> Bitmap" where
  "rotate_left b = \<lparr>width = height b, height = width b,
                    pixel = (\<lambda>x y. get_pixel b (width b - 1 - y) x)\<rparr>"

subsection \<open>\<open>pISO::render\<close>\<close>

text \<open>The two modes of \<open>GUIRenderable::RenderMode\<close> that the code and the specification name.\<close>

datatype RenderMode = NORMAL | FULLSCREEN

text \<open>
  The loop over the items either returns from \<open>render\<close> with what an item has drawn, or
  runs to its end with the canvas it has stacked. \<open>rend\<close> is \<open>item->render()\<close>, the virtual
  call on the item a pointer refers to.
\<close>

datatype loop_result = Returned "Bitmap \<times> RenderMode" | Stacked Bitmap

fun render_loop :: "config \<Rightarrow> (item_ref \<Rightarrow> Bitmap \<times> RenderMode) \<Rightarrow> item_ref list \<Rightarrow> Bitmap \<Rightarrow> loop_result" where
  "render_loop cfg rend [] bitmap = Stacked bitmap"
| "render_loop cfg rend (item # items) bitmap =
     (let drive_bitmap = rend item
      in if snd drive_bitmap = FULLSCREEN then Returned drive_bitmap
         else (let shifted0 = new_Bitmap (width (fst drive_bitmap) + MENU_LEFT_SPACE cfg)
                                         (height (fst drive_bitmap));
                   shifted = blit shifted0 (fst drive_bitmap) (int (MENU_LEFT_SPACE cfg), 0) False;
                   old_height = height bitmap;
                   bitmap1 = expand_height bitmap (height shifted);
                   bitmap2 = (if width shifted > width bitmap1
                              then expand_width bitmap1 (width shifted - width bitmap1)
                              else bitmap1);
                   bitmap3 = blit bitmap2 shifted (0, int old_height) True
               in render_loop cfg rend items bitmap3))"

text \<open>
  \<open>render\<close> changes nothing in the controller; the line it logs is left out. The thin pool's
  usage is asked for only after the loop, so a full-screen item returns before any error of
  \<open>percent_used\<close> can occur.
\<close>

definition render :: "config \<Rightarrow> (item_ref \<Rightarrow> Bitmap \<times> RenderMode) \<Rightarrow> pISO \<Rightarrow> error + Bitmap \<times> RenderMode" where
  "render cfg rend s =
     (case render_loop cfg rend (m_list_items s) (new_Bitmap 0 0) of
        Returned drive_bitmap \<Rightarrow> Inr drive_bitmap
      | Stacked bitmap \<Rightarrow>
          (let out0 = new_Bitmap (Display_width cfg) (Display_height cfg);
               out1 = blit out0 bitmap (0, 0) False
           in case percent_used cfg s of
                Inl e \<Rightarrow> Inl e
              | Inr used \<Rightarrow>
                  (let percent_free = percent_free_of cfg used;
                       sidebar_contents = to_string_int percent_free @ ''% Free'';
                       sidebar = render_text cfg sidebar_contents;
                       swb0 = new_Bitmap (width sidebar) (height sidebar + SIDEBAR_SPACE cfg);
                       swb1 = fill_row0 swb0;
                       swb2 = blit swb1 sidebar (0, int (SIDEBAR_SPACE cfg)) False;
                       sidebar_with_border = rotate_left swb2;
                       out2 = blit out1 sidebar_with_border
                                (int (width out1) - int (width sidebar_with_border), 0) False
                   in Inr (out2, NORMAL))))"

subsection \<open>The constructor and sequences of operations\<close>

text \<open>
  The constructor builds \<open>m_newdrive\<close> and \<open>m_options\<close>, leaves the containers empty and calls
  \<open>rebuild_drives_from_volumes\<close>. It starts from what the backend holds.
\<close>

definition init_pISO :: "volume list \<Rightarrow> pISO" where
  "init_pISO vs =
     \<lparr>m_drives = [], m_newdrive_focus = False, m_options_focus = False, m_list_items = [],
      m_selection = 0, gui_calls = [], volumes = vs, calls = [], log_lines = []\<rparr>"

definition construct_pISO :: "volume list \<Rightarrow> pISO" where
  "construct_pISO vs = rebuild_drives_from_volumes (init_pISO vs)"

text \<open>
  The two operations that change the set of drives, as data. A step is one of them; after a
  fatal error there is no further step.
\<close>

datatype operation = AddDrive "64 word" DriveFormat string | RemoveDrive VirtualDrive

fun step :: "config \<Rightarrow> operation \<Rightarrow> pISO \<Rightarrow> error + pISO" where
  "step cfg (AddDrive sz format loopback_res) s =
     (case add_drive cfg sz format loopback_res s of Inl e \<Rightarrow> Inl e | Inr (drive, s') \<Rightarrow> Inr s')"
| "step cfg (RemoveDrive drive) s = remove_drive cfg drive s"

text \<open>The names of the live drives, in the order of the vector.\<close>

definition drive_names :: "pISO \<Rightarrow> string list" where
  "drive_names s = map name (m_drives s)"

text \<open>The name that \<open>add_drive\<close> computes in a state.\<close>

definition next_name :: "pISO \<Rightarrow> string" where
  "next_name s = ''Drive'' @ to_string (length (m_drives s) + 1)"

text \<open>
  Every state that a run of operations passes through, the first included; the run ends
  with its last operation or with the first fatal error.
\<close>

fun states :: "config \<Rightarrow> operation list \<Rightarrow> pISO \<Rightarrow> pISO list" where
  "states cfg [] s = [s]"
| "states cfg (op # ops) s =
     s # (case step cfg op s of Inl e \<Rightarrow> [] | Inr s' \<Rightarrow> states cfg ops s')"

text \<open>
  The live drives are backed when they have pairwise different names and the backend holds
  a volume under each of these names, as it is after the constructor has made the drives
  from the backend's report.
\<close>

definition names_backed :: "pISO \<Rightarrow> bool" where
  "names_backed s =
     (distinct (drive_names s) \<and> set (drive_names s) \<subseteq> set (map lv_name (volumes s)))"

text \<open>
  The cursor is valid when it refers to an element of the list and that element is a live
  item: a pointer into the vector of drives must lie within the vector.
\<close>

definition item_live :: "pISO \<Rightarrow> item_ref \<Rightarrow> bool" where
  "item_live s r = (case r of DriveRef i \<Rightarrow> i < length (m_drives s) | NewDriveRef \<Rightarrow> True | OptionsRef \<Rightarrow> True)"

definition valid_cursor :: "pISO \<Rightarrow> bool" where
  "valid_cursor s = (has_selection s \<and> item_live s (m_list_items s ! m_selection s))"

text \<open>
  The item list is up to date when it is the one \<open>update_list_items\<close> builds from the present
  drives and the cursor is at its first element.
\<close>

definition list_up_to_date :: "pISO \<Rightarrow> bool" where
  "list_up_to_date s =
     (m_list_items s = map DriveRef [0..<length (m_drives s)] @ [NewDriveRef, OptionsRef]
      \<and> m_selection s = 0)"

subsection \<open>The format tables as the specification words them\<close>

text \<open>
  Section 4.1, step 3: the partition is created with the file-system hint \<open>ntfs\<close> for WINDOWS,
  MAC and UNIVERSAL, and \<open>ext3\<close> for LINUX. Step 5: the partition is formatted as \<open>ntfs\<close> for
  WINDOWS, \<open>ext3\<close> for LINUX and \<open>exfat\<close> for MAC and UNIVERSAL.
\<close>

fun spec_partition_hint :: "DriveFormat \<Rightarrow> string" where
  "spec_partition_hint WINDOWS = ''ntfs''"
| "spec_partition_hint MAC = ''ntfs''"
| "spec_partition_hint UNIVERSAL = ''ntfs''"
| "spec_partition_hint LINUX = ''ext3''"

fun spec_filesystem :: "DriveFormat \<Rightarrow> string" where
  "spec_filesystem WINDOWS = ''ntfs''"
| "spec_filesystem LINUX = ''ext3''"
| "spec_filesystem MAC = ''exfat''"
| "spec_filesystem UNIVERSAL = ''exfat''"

subsection \<open>A concrete configuration\<close>

text \<open>
  \<open>std::stof\<close> on the texts \<open>lvs\<close> prints for a percentage, digits with an optional
  fraction; every other text is treated as rejected. And the free percentage for a usage
  whose difference from 100 a \<open>float\<close> holds exactly: the difference without its fraction.
\<close>

definition decimal_parts :: "string \<Rightarrow> (nat \<times> nat) option" where
  "decimal_parts str =
     (let ip = takeWhile (\<lambda>c. digit_of c \<noteq> None) str;
          rest = dropWhile (\<lambda>c. digit_of c \<noteq> None) str
      in if ip = [] then None
         else (case rest of
                 [] \<Rightarrow> Some (digits_value 0 ip, 0)
               | c # fr \<Rightarrow>
                   (if c = CHR ''.'' \<and> list_all (\<lambda>c. digit_of c \<noteq> None) fr
                    then Some (digits_value 0 (ip @ fr), length fr)
                    else None)))"

definition stof_decimal :: "string \<Rightarrow> error + rat" where
  "stof_decimal str =
     (case decimal_parts str of
        None \<Rightarrow> Inl invalid_argument
      | Some (m, e) \<Rightarrow> Inr (of_nat m / 10 ^ e))"

definition percent_free_exact :: "rat \<Rightarrow> int" where
  "percent_free_exact used = (if 0 \<le> 100 - used then \<lfloor>100 - used\<rfloor> else \<lceil>100 - used\<rceil>)"

text \<open>
  A configuration with a 128 by 64 display and a font whose glyphs are 6 by 8, and a backend
  that holds the thin pool, a quarter full, and one virtual volume; the same backend with
  three virtual volumes; one that holds \<open>Drive2\<close> but no \<open>Drive1\<close>; and one whose report
  gives 150.00 as the pool's percentage.
\<close>

definition demo_config :: config where
  "demo_config =
     \<lparr>VOLUME_GROUP_NAME = ''VolGroup00'', THINPOOL_NAME = ''thinpool'',
      PISO_SCRIPTS_PATH = ''/opt/piso_scripts'', MENU_LEFT_SPACE = 10, SIDEBAR_SPACE = 2,
      Display_width = 128, Display_height = 64, stof = stof_decimal,
      percent_free_of = percent_free_exact,
      render_text = (\<lambda>t. new_Bitmap (6 * length t) 8)\<rparr>"

definition demo_volumes :: "volume list" where
  "demo_volumes =
     [\<lparr>lv_name = ''thinpool'', lv_attr = ''twi-aotz--'', data_percent = ''25.00'',
       lv_size = ''8589934592B''\<rparr>,
      \<lparr>lv_name = ''Drive1'', lv_attr = ''Vwi-a-tz--'', data_percent = ''0.00'',
       lv_size = ''1073741824B''\<rparr>]"

definition demo_volumes3 :: "volume list" where
  "demo_volumes3 =
     [\<lparr>lv_name = ''thinpool'', lv_attr = ''twi-aotz--'', data_percent = ''25.00'',
       lv_size = ''8589934592B''\<rparr>,
      \<lparr>lv_name = ''Drive1'', lv_attr = ''Vwi-a-tz--'', data_percent = ''0.00'',
       lv_size = ''1073741824B''\<rparr>,
      \<lparr>lv_name = ''Drive2'', lv_attr = ''Vwi-a-tz--'', data_percent = ''0.00'',
       lv_size = ''1073741824B''\<rparr>,
      \<lparr>lv_name = ''Drive3'', lv_attr = ''Vwi-a-tz--'', data_percent = ''0.00'',
       lv_size = ''1073741824B''\<rparr>]"

definition demo_volumes_gap :: "volume list" where
  "demo_volumes_gap =
     [\<lparr>lv_name = ''thinpool'', lv_attr = ''twi-aotz--'', data_percent = ''25.00'',
       lv_size = ''8589934592B''\<rparr>,
      \<lparr>lv_name = ''Drive2'', lv_attr = ''Vwi-a-tz--'', data_percent = ''0.00'',
       lv_size = ''1073741824B''\<rparr>]"

definition demo_volumes_150 :: "volume list" where
  "demo_volumes_150 =
     [\<lparr>lv_name = ''thinpool'', lv_attr = ''twi-aotz--'', data_percent = ''150.00'',
       lv_size = ''8589934592B''\<rparr>]"

text \<open>
  What the helper script prints for a new drive with two partitions: a line for each
  partition's device.
\<close>

definition demo_loopback_res :: string where
  "demo_loopback_res =
     ''/dev/mapper/loop0p1'' @ [CHR 0x0A] @ ''/dev/mapper/loop0p2'' @ [CHR 0x0A]"

text \<open>
  Two ways the items may draw themselves: every item a line of the menu, or the new-drive
  item a dialog of 100 by 40 that asks for the whole screen.
\<close>

definition demo_rend_menu :: "item_ref \<Rightarrow> Bitmap \<times> RenderMode" where
  "demo_rend_menu r = (new_Bitmap 36 8, NORMAL)"

definition demo_rend_dialog :: "item_ref \<Rightarrow> Bitmap \<times> RenderMode" where
  "demo_rend_dialog r =
     (case r of
        DriveRef i \<Rightarrow> (new_Bitmap 36 8, NORMAL)
      | NewDriveRef \<Rightarrow> (new_Bitmap 100 40, FULLSCREEN)
      | OptionsRef \<Rightarrow> (new_Bitmap 42 8, NORMAL))"

section \<open>Properties\<close>

subsection \<open>Focus notifications and the rebuilt list\<close>

lemma set_focus_fields [simp]:
  "m_list_items (set_focus r b s) = m_list_items s"
  "m_selection (set_focus r b s) = m_selection s"
  "gui_calls (set_focus r b s) = gui_calls s"
  "volumes (set_focus r b s) = volumes s"
  "calls (set_focus r b s) = calls s"
  "log_lines (set_focus r b s) = log_lines s"
  "length (m_drives (set_focus r b s)) = length (m_drives s)"
  "map name (m_drives (set_focus r b s)) = map name (m_drives s)"
  "map mount_state (m_drives (set_focus r b s)) = map mount_state (m_drives s)"
  by (auto simp: set_focus_def map_update list_update_same_conv split: item_ref.splits)

lemma has_focus_set_focus:
  "has_focus (set_focus r b s) q =
     (if q = r then (case r of DriveRef i \<Rightarrow> i < length (m_drives s) \<and> b | _ \<Rightarrow> b) else has_focus s q)"
  by (auto simp: set_focus_def has_focus_def nth_list_update split: item_ref.splits)

lemma has_focus_gui_calls [simp]: "has_focus (s\<lparr>gui_calls := g\<rparr>) q = has_focus s q"
  by (simp add: has_focus_def split: item_ref.splits)

lemma has_focus_selection [simp]: "has_focus (s\<lparr>m_selection := g\<rparr>) q = has_focus s q"
  by (simp add: has_focus_def split: item_ref.splits)

lemma on_lose_focus_fields [simp]:
  "m_list_items (on_lose_focus r s) = m_list_items s"
  "m_selection (on_lose_focus r s) = m_selection s"
  "gui_calls (on_lose_focus r s) = gui_calls s @ [OnLoseFocus r]"
  "volumes (on_lose_focus r s) = volumes s"
  "calls (on_lose_focus r s) = calls s"
  "log_lines (on_lose_focus r s) = log_lines s"
  "length (m_drives (on_lose_focus r s)) = length (m_drives s)"
  "map name (m_drives (on_lose_focus r s)) = map name (m_drives s)"
  "map mount_state (m_drives (on_lose_focus r s)) = map mount_state (m_drives s)"
  by (simp_all add: on_lose_focus_def)

lemma on_focus_fields [simp]:
  "m_list_items (on_focus r s) = m_list_items s"
  "m_selection (on_focus r s) = m_selection s"
  "gui_calls (on_focus r s) = gui_calls s @ [OnFocus r]"
  "volumes (on_focus r s) = volumes s"
  "calls (on_focus r s) = calls s"
  "log_lines (on_focus r s) = log_lines s"
  "length (m_drives (on_focus r s)) = length (m_drives s)"
  "map name (m_drives (on_focus r s)) = map name (m_drives s)"
  "map mount_state (m_drives (on_focus r s)) = map mount_state (m_drives s)"
  by (simp_all add: on_focus_def)

lemma has_focus_on_lose_focus:
  "has_focus (on_lose_focus r s) q = (q \<noteq> r \<and> has_focus s q)"
  by (auto simp: on_lose_focus_def has_focus_set_focus split: item_ref.splits)

lemma has_focus_on_focus:
  "has_focus (on_focus r s) q =
     (if q = r then (case r of DriveRef i \<Rightarrow> i < length (m_drives s) | _ \<Rightarrow> True) else has_focus s q)"
  by (auto simp: on_focus_def has_focus_set_focus split: item_ref.splits)

lemma lose_focus_all_fields [simp]:
  "m_list_items (lose_focus_all rs s) = m_list_items s"
  "m_selection (lose_focus_all rs s) = m_selection s"
  "gui_calls (lose_focus_all rs s) = gui_calls s @ map OnLoseFocus rs"
  "volumes (lose_focus_all rs s) = volumes s"
  "calls (lose_focus_all rs s) = calls s"
  "log_lines (lose_focus_all rs s) = log_lines s"
  "length (m_drives (lose_focus_all rs s)) = length (m_drives s)"
  "map name (m_drives (lose_focus_all rs s)) = map name (m_drives s)"
  "map mount_state (m_drives (lose_focus_all rs s)) = map mount_state (m_drives s)"
  by (induction rs arbitrary: s; simp)+

lemma has_focus_lose_focus_all:
  "has_focus (lose_focus_all rs s) q = (q \<notin> set rs \<and> has_focus s q)"
  by (induction rs arbitrary: s) (auto simp: has_focus_on_lose_focus)

lemma update_list_items_items:
  "m_list_items (update_list_items s) = map DriveRef [0..<length (m_drives s)] @ [NewDriveRef, OptionsRef]"
  by (simp add: update_list_items_def Let_def piso_log_def has_selection_def)

lemma update_list_items_fields [simp]:
  "m_selection (update_list_items s) = 0"
  "volumes (update_list_items s) = volumes s"
  "calls (update_list_items s) = calls s"
  "log_lines (update_list_items s) = log_lines s @ [''pISO: Updating menu items'']"
  "length (m_drives (update_list_items s)) = length (m_drives s)"
  "map name (m_drives (update_list_items s)) = map name (m_drives s)"
  "map mount_state (m_drives (update_list_items s)) = map mount_state (m_drives s)"
  by (simp_all add: update_list_items_def Let_def piso_log_def has_selection_def)

lemma update_list_items_gui_calls:
  "gui_calls (update_list_items s) =
     gui_calls s @ map OnLoseFocus (m_list_items (update_list_items s))
       @ [OnFocus (m_list_items (update_list_items s) ! 0)]"
  by (simp add: update_list_items_def Let_def piso_log_def has_selection_def)

lemma first_item:
  "(map DriveRef [0..<n] @ [NewDriveRef, OptionsRef]) ! 0 = (if n = 0 then NewDriveRef else DriveRef 0)"
  by (cases n) (simp_all add: upt_rec nth_append)

lemma has_focus_in_items:
  "has_focus s q \<Longrightarrow> q \<in> set (map DriveRef [0..<length (m_drives s)] @ [NewDriveRef, OptionsRef])"
  by (cases q) (auto simp: has_focus_def)

lemma has_focus_log_items [simp]:
  "has_focus (s\<lparr>m_list_items := l\<rparr>) q = has_focus s q"
  "has_focus (s\<lparr>log_lines := g\<rparr>) q = has_focus s q"
  by (simp_all add: has_focus_def split: item_ref.splits)

lemma has_focus_update_list_items:
  "has_focus (update_list_items s) q = (q = m_list_items (update_list_items s) ! 0)"
proof -
  let ?items = "map DriveRef [0..<length (m_drives s)] @ [NewDriveRef, OptionsRef]"
  let ?s5 = "s\<lparr>log_lines := log_lines s @ [''pISO: Updating menu items''], m_list_items := ?items\<rparr>"
  let ?s7 = "(lose_focus_all ?items ?s5)\<lparr>m_selection := 0\<rparr>"
  have upd: "update_list_items s = on_focus (?items ! 0) ?s7"
    by (simp add: update_list_items_def Let_def piso_log_def has_selection_def)
  have s7: "\<not> has_focus ?s7 q"
    using has_focus_in_items [of s q] by (auto simp: has_focus_lose_focus_all)
  have len: "length (m_drives ?s7) = length (m_drives s)"
    by simp
  have "has_focus (on_focus (?items ! 0) ?s7) q = (q = ?items ! 0)"
    unfolding has_focus_on_focus first_item using s7 len
    by (auto split: item_ref.splits)
  then show ?thesis
    by (simp add: upd [symmetric] update_list_items_items)
qed

lemma update_list_items_nonempty: "m_list_items (update_list_items s) \<noteq> []"
  by (simp add: update_list_items_items)

lemma update_list_items_distinct: "distinct (m_list_items (update_list_items s))"
  by (auto simp: update_list_items_items distinct_map inj_on_def)

lemma update_list_items_has_selection: "has_selection (update_list_items s)"
  by (simp add: has_selection_def update_list_items_items)

subsection \<open>Rebuilding, adding and removing drives\<close>

lemma rebuild_loop_fields [simp]:
  "m_drives (rebuild_loop vs s) = m_drives s @ map (\<lambda>v. new_VirtualDrive (lv_name v)) (filter is_virtual vs)"
  "volumes (rebuild_loop vs s) = volumes s"
  "calls (rebuild_loop vs s) = calls s"
  "gui_calls (rebuild_loop vs s) = gui_calls s"
  by (induction vs arbitrary: s; simp add: Let_def piso_log_def)+

lemma rebuild_drive_names:
  "drive_names (rebuild_drives_from_volumes s) = map lv_name (filter is_virtual (volumes s))"
  by (simp add: drive_names_def rebuild_drives_from_volumes_def Let_def piso_log_def
      lvm_lvs_report_def new_VirtualDrive_def comp_def)


lemma rebuild_items:
  "m_list_items (rebuild_drives_from_volumes s) =
     map DriveRef [0..<length (filter is_virtual (volumes s))] @ [NewDriveRef, OptionsRef]"
  by (simp add: rebuild_drives_from_volumes_def Let_def piso_log_def
      lvm_lvs_report_def update_list_items_items)

lemma rebuild_fields [simp]:
  "volumes (rebuild_drives_from_volumes s) = volumes s"
  "calls (rebuild_drives_from_volumes s) = calls s"
  "m_selection (rebuild_drives_from_volumes s) = 0"
  by (simp_all add: rebuild_drives_from_volumes_def Let_def piso_log_def)

lemma add_drive_refused:
  assumes "next_name s \<in> set (map lv_name (volumes s))"
  shows "add_drive cfg sz f out s =
           Inl (command_failed (''lvcreate -V '' @ to_string (unat sz) @ ''B -T ''
                  @ VOLUME_GROUP_NAME cfg @ ''/'' @ THINPOOL_NAME cfg @ '' -n '' @ next_name s))"
  using assms
  by (simp add: add_drive_def Let_def next_name_def piso_log_def lvm_run_def create_volume_def)

lemma add_drive_returns:
  assumes "next_name s \<notin> set (map lv_name (volumes s))"
  shows "\<exists>d s'. add_drive cfg sz f out s = Inr (d, s')"
  using assms
  by (simp add: add_drive_def Let_def next_name_def piso_log_def lvm_run_def create_volume_def)

lemma add_drive_fresh:
  assumes "add_drive cfg sz f out s = Inr (d, s')"
  shows "next_name s \<notin> set (map lv_name (volumes s))"
  using assms add_drive_refused [of s cfg sz f out] by auto

lemma add_drive_names:
  assumes "add_drive cfg sz f out s = Inr (d, s')"
  shows "drive_names s' = drive_names s @ [next_name s]"
  using assms
  by (auto simp: add_drive_def Let_def drive_names_def next_name_def piso_log_def lvm_run_def
      create_volume_def run_command_def new_VirtualDrive_def mount_external_def
      split: if_splits DriveFormat.splits)

lemma add_drive_mount_states:
  assumes "add_drive cfg sz f out s = Inr (d, s')"
  shows "map mount_state (m_drives s') = map mount_state (m_drives s) @ [MOUNTED_EXTERNAL]"
  using assms
  by (auto simp: add_drive_def Let_def piso_log_def lvm_run_def
      create_volume_def run_command_def new_VirtualDrive_def mount_external_def
      split: if_splits DriveFormat.splits)

lemma add_drive_volumes:
  assumes "add_drive cfg sz f out s = Inr (d, s')"
  shows "volumes s' =
           volumes s @ [\<lparr>lv_name = next_name s, lv_attr = ''Vwi-a-tz--'', data_percent = ''0.00'',
                          lv_size = to_string (unat sz) @ ''B''\<rparr>]"
  using assms
  by (auto simp: add_drive_def Let_def next_name_def piso_log_def lvm_run_def
      create_volume_def run_command_def split: if_splits DriveFormat.splits)

lemma add_drive_is_update:
  assumes "add_drive cfg sz f out s = Inr (d, s')"
  shows "d = last (m_drives s') \<and> (\<exists>t. s' = update_list_items t)"
  using assms unfolding add_drive_def Let_def
  by (auto split: sum.splits)

lemma add_drive_result:
  assumes "add_drive cfg sz f out s = Inr (d, s')"
  shows "name d = next_name s \<and> mount_state d = MOUNTED_EXTERNAL"
proof -
  have l: "d = last (m_drives s')"
    using add_drive_is_update [OF assms] by blast
  have n: "map name (m_drives s') = map name (m_drives s) @ [next_name s]"
    using add_drive_names [OF assms] by (simp add: drive_names_def)
  then have ne: "m_drives s' \<noteq> []"
    by auto
  have "name d = last (map name (m_drives s'))" "mount_state d = last (map mount_state (m_drives s'))"
    using ne by (simp_all add: l last_map)
  then show ?thesis
    by (simp add: n add_drive_mount_states [OF assms])
qed

lemma find_drive_None: "(find_drive ds d = None) = (name d \<notin> set (map name ds))"
  by (induction ds) (auto simp: drive_eq_def)

lemma find_drive_Some:
  "find_drive ds d = Some i \<Longrightarrow> i < length ds \<and> name (ds ! i) = name d \<and> name d \<notin> set (map name (take i ds))"
proof (induction ds arbitrary: i)
  case Nil
  then show ?case by simp
next
  case (Cons x xs)
  show ?case
  proof (cases "drive_eq x d")
    case True
    with Cons.prems show ?thesis by (simp add: drive_eq_def)
  next
    case False
    with Cons.prems obtain j where j: "find_drive xs d = Some j" "i = Suc j"
      by auto
    from Cons.IH [OF j(1)] False j(2) show ?thesis
      by (auto simp: drive_eq_def)
  qed
qed

lemma remove_drive_absent:
  assumes "name x \<notin> set (drive_names s)"
  shows "remove_drive cfg x s =
           Inr (s\<lparr>log_lines := log_lines s @ [''Removing drive '' @ name x, ''Warning: drive not found'']\<rparr>)"
proof -
  have "find_drive (m_drives s) x = None"
    using assms by (simp add: find_drive_None drive_names_def)
  then show ?thesis
    by (simp add: remove_drive_def Let_def piso_log_def)
qed

lemma remove_drive_present:
  assumes "find_drive (m_drives s) x = Some i"
  shows "remove_drive cfg x s =
           Inr (update_list_items
             (s\<lparr>log_lines := log_lines s @ [''Removing drive '' @ name x],
                volumes := filter (\<lambda>v. lv_name v \<noteq> name x) (volumes s),
                calls := calls s @ [Lvm (''lvremove '' @ VOLUME_GROUP_NAME cfg @ ''/'' @ name x @ '' -y'')],
                m_drives := take i (m_drives s) @ drop (Suc i) (m_drives s)\<rparr>))"
  using assms
  by (simp add: remove_drive_def Let_def piso_log_def lvm_run_def delete_volume_def erase_def)

lemma nth_not_in_rest:
  assumes "distinct xs" and "i < length xs"
  shows "xs ! i \<notin> set (take i xs @ drop (Suc i) xs)"
proof -
  have "xs = take i xs @ xs ! i # drop (Suc i) xs"
    using assms(2) by (simp add: id_take_nth_drop)
  then have "distinct (take i xs @ xs ! i # drop (Suc i) xs)"
    using assms(1) by simp
  then show ?thesis by auto
qed

lemma rest_subset: "set (take i xs @ drop (Suc i) xs) \<subseteq> set xs"
  by (auto dest: in_set_takeD in_set_dropD)

lemma rest_distinct: "distinct xs \<Longrightarrow> distinct (take i xs @ drop (Suc i) xs)"
  using set_take_disj_set_drop_if_distinct [of xs i "Suc i"]
  by (simp add: distinct_take distinct_drop)

subsection \<open>Runs of operations\<close>

lemma names_backed_add:
  assumes "names_backed s" and "add_drive cfg sz f out s = Inr (d, s')"
  shows "names_backed s'"
  using assms(1) add_drive_fresh [OF assms(2)]
  by (auto simp: names_backed_def add_drive_names [OF assms(2)] add_drive_volumes [OF assms(2)])

lemma names_backed_remove:
  assumes "names_backed s" and "remove_drive cfg x s = Inr s'"
  shows "names_backed s'"
proof (cases "find_drive (m_drives s) x")
  case None
  then have "name x \<notin> set (drive_names s)"
    by (simp add: find_drive_None drive_names_def)
  from remove_drive_absent [OF this, of cfg] assms show ?thesis
    by (auto simp: names_backed_def drive_names_def)
next
  case (Some i)
  let ?ns = "drive_names s"
  from find_drive_Some [OF Some] have i: "i < length ?ns" and x: "?ns ! i = name x"
    by (simp_all add: drive_names_def)
  have n': "drive_names s' = take i ?ns @ drop (Suc i) ?ns"
    and v': "volumes s' = filter (\<lambda>v. lv_name v \<noteq> name x) (volumes s)"
    using remove_drive_present [OF Some, of cfg] assms(2)
    by (auto simp: drive_names_def take_map drop_map)
  from assms(1) have d: "distinct ?ns" and b: "set ?ns \<subseteq> set (map lv_name (volumes s))"
    by (simp_all add: names_backed_def)
  have r: "name x \<notin> set (take i ?ns @ drop (Suc i) ?ns)"
    using nth_not_in_rest [OF d i] x by simp
  have "set (take i ?ns @ drop (Suc i) ?ns) \<subseteq> set (map lv_name (filter (\<lambda>v. lv_name v \<noteq> name x) (volumes s)))"
  proof
    fix n
    assume n: "n \<in> set (take i ?ns @ drop (Suc i) ?ns)"
    then have "n \<in> set ?ns"
      using rest_subset [of i ?ns] by blast
    with b obtain v where v: "v \<in> set (volumes s)" "lv_name v = n"
      by auto
    moreover from n r have "n \<noteq> name x"
      by auto
    ultimately show "n \<in> set (map lv_name (filter (\<lambda>v. lv_name v \<noteq> name x) (volumes s)))"
      by auto
  qed
  with rest_distinct [OF d, of i] show ?thesis
    unfolding names_backed_def n' v' by simp
qed

lemma names_backed_step:
  assumes "names_backed s" and "step cfg op s = Inr s'"
  shows "names_backed s'"
proof (cases op)
  case (AddDrive sz f out)
  with assms(2) obtain d where "add_drive cfg sz f out s = Inr (d, s')"
    by (auto split: sum.splits)
  with assms(1) show ?thesis by (rule names_backed_add)
next
  case (RemoveDrive x)
  with assms show ?thesis by (auto intro: names_backed_remove)
qed

lemma names_backed_states:
  "names_backed s \<Longrightarrow> \<forall>t \<in> set (states cfg ops s). names_backed t"
proof (induction ops arbitrary: s)
  case Nil
  then show ?case by simp
next
  case (Cons op ops)
  show ?case
  proof (cases "step cfg op s")
    case (Inl e)
    with Cons.prems show ?thesis by simp
  next
    case (Inr s')
    with Cons.prems have "names_backed s'" by (auto intro: names_backed_step)
    from Cons.IH [OF this] Cons.prems Inr show ?thesis by simp
  qed
qed

lemma names_backed_construct:
  assumes "distinct (map lv_name (filter is_virtual vs))"
  shows "names_backed (construct_pISO vs)"
  using assms
  by (auto simp: names_backed_def construct_pISO_def rebuild_drive_names init_pISO_def)

lemma list_up_to_date_update: "list_up_to_date (update_list_items t)"
  by (simp add: list_up_to_date_def update_list_items_items)

lemma list_up_to_date_step:
  assumes "list_up_to_date s" and "step cfg op s = Inr s'"
  shows "list_up_to_date s'"
proof (cases op)
  case (AddDrive sz f out)
  with assms(2) obtain d where "add_drive cfg sz f out s = Inr (d, s')"
    by (auto split: sum.splits)
  from add_drive_is_update [OF this] show ?thesis
    by (auto simp: list_up_to_date_update)
next
  case (RemoveDrive d)
  show ?thesis
  proof (cases "find_drive (m_drives s) d")
    case None
    then have "name d \<notin> set (drive_names s)"
      by (simp add: find_drive_None drive_names_def)
    from remove_drive_absent [OF this, of cfg] assms RemoveDrive show ?thesis
      by (auto simp: list_up_to_date_def)
  next
    case (Some i)
    from remove_drive_present [OF Some, of cfg] assms(2) RemoveDrive show ?thesis
      by (auto simp: list_up_to_date_update)
  qed
qed

lemma list_up_to_date_states:
  "list_up_to_date s \<Longrightarrow> \<forall>t \<in> set (states cfg ops s). list_up_to_date t"
proof (induction ops arbitrary: s)
  case Nil
  then show ?case by simp
next
  case (Cons op ops)
  show ?case
  proof (cases "step cfg op s")
    case (Inl e)
    with Cons.prems show ?thesis by simp
  next
    case (Inr s')
    with Cons.prems have "list_up_to_date s'" by (auto intro: list_up_to_date_step)
    from Cons.IH [OF this] Cons.prems Inr show ?thesis by simp
  qed
qed

lemma list_up_to_date_construct: "list_up_to_date (construct_pISO vs)"
  by (simp add: construct_pISO_def rebuild_drives_from_volumes_def Let_def list_up_to_date_update)

lemma list_up_to_date_valid:
  assumes "list_up_to_date s"
  shows "m_list_items s \<noteq> [] \<and> valid_cursor s"
  using assms first_item [of "length (m_drives s)"]
  by (auto simp: list_up_to_date_def valid_cursor_def has_selection_def item_live_def)


subsection \<open>Rendering\<close>

lemma blit_dims [simp]:
  "width (blit dst src pos False) = width dst"
  "height (blit dst src pos False) = height dst"
  by (simp_all add: blit_def)

lemma new_Bitmap_dims [simp]:
  "width (new_Bitmap w h) = w"
  "height (new_Bitmap w h) = h"
  by (simp_all add: new_Bitmap_def)

lemma get_pixel_new [simp]: "get_pixel (new_Bitmap w h) x y = False"
  by (simp add: get_pixel_def new_Bitmap_def)

lemma get_pixel_blit:
  "get_pixel (blit dst src pos False) x y =
     (x < width dst \<and> y < height dst \<and>
      (if covers src pos x y then get_pixel src (nat (int x - fst pos)) (nat (int y - snd pos))
       else get_pixel dst x y))"
  by (simp add: get_pixel_def blit_def)

lemma render_loop_fullscreen:
  "\<forall>r \<in> set pre. snd (rend r) \<noteq> FULLSCREEN \<Longrightarrow> snd (rend k) = FULLSCREEN \<Longrightarrow>
     render_loop cfg rend (pre @ k # post) bitmap = Returned (rend k)"
  by (induction pre arbitrary: bitmap) (simp_all add: Let_def)

lemma render_loop_normal:
  "\<forall>r \<in> set items. snd (rend r) \<noteq> FULLSCREEN \<Longrightarrow>
     \<exists>canvas. render_loop cfg rend items bitmap = Stacked canvas"
  by (induction items arbitrary: bitmap) (simp_all add: Let_def)

lemma covers_origin:
  "covers src (0, 0) x y = (x < width src \<and> y < height src)"
  by (simp add: covers_def)

lemma percent_used_loop_find:
  "percent_used_loop cfg vs =
     (case find (\<lambda>v. lv_name v = THINPOOL_NAME cfg) vs of
        None \<Rightarrow> Inl (Fatal ''pISO: unable to locate thinpool'')
      | Some v \<Rightarrow> stof cfg (data_percent v))"
  by (induction vs) simp_all

subsection \<open>Reading numbers\<close>

lemma digit_cases:
  "(d::nat) < 10 \<Longrightarrow> d = 0 \<or> d = 1 \<or> d = 2 \<or> d = 3 \<or> d = 4 \<or> d = 5 \<or> d = 6 \<or> d = 7 \<or> d = 8 \<or> d = 9"
  by arith

lemma digit_char_facts:
  assumes "d < 10"
  shows "\<not> is_space (digit_char d) \<and> digit_char d \<noteq> CHR ''-'' \<and> digit_char d \<noteq> CHR ''+''
         \<and> digit_of (digit_char d) = Some d"
proof -
  have "\<forall>k \<in> set [0..<10]. \<not> is_space (digit_char k) \<and> digit_char k \<noteq> CHR ''-'' \<and> digit_char k \<noteq> CHR ''+''
         \<and> digit_of (digit_char k) = Some k"
    by code_simp
  with assms show ?thesis by simp
qed


lemma digits_value_to_string:
  "digits_value acc (to_string k @ rest) = digits_value (acc * 10 ^ length (to_string k) + k) rest"
proof (induction k arbitrary: acc rest rule: to_string.induct)
  case (1 n)
  show ?case
  proof (cases "n < 10")
    case True
    then show ?thesis
      using digit_char_facts [OF True] by (simp add: to_string.simps [of n] mult.commute)
  next
    case False
    have m: "n mod 10 < 10" by simp
    have "digits_value acc (to_string n @ rest) =
            digits_value acc (to_string (n div 10) @ (digit_char (n mod 10) # rest))"
      using False by (simp add: to_string.simps [of n])
    also have "\<dots> = digits_value (acc * 10 ^ length (to_string (n div 10)) + n div 10)
                       (digit_char (n mod 10) # rest)"
      by (rule "1.IH" [OF False])
    also have "\<dots> = digits_value (10 * (acc * 10 ^ length (to_string (n div 10)) + n div 10) + n mod 10) rest"
      using digit_char_facts [OF m] by simp
    also have "10 * (acc * 10 ^ length (to_string (n div 10)) + n div 10) + n mod 10 =
               acc * 10 ^ length (to_string n) + n"
      using False by (simp add: to_string.simps [of n] algebra_simps)
    finally show ?thesis .
  qed
qed

lemma to_string_head: "\<exists>d cs. d < 10 \<and> to_string n = digit_char d # cs"
proof (induction n rule: to_string.induct)
  case (1 n)
  show ?case
  proof (cases "n < 10")
    case True
    then show ?thesis by (auto simp: to_string.simps [of n])
  next
    case False
    from "1.IH" [OF False] obtain d cs where "d < 10" "to_string (n div 10) = digit_char d # cs"
      by blast
    with False show ?thesis by (auto simp: to_string.simps [of n])
  qed
qed

lemma digit_of_B: "digit_of CHR ''B'' = None"
  by code_simp

lemma stoull_bytes:
  assumes "k < 2 ^ 64"
  shows "stoull (to_string k @ ''B'') = Inr (word_of_nat k)"
proof -
  obtain d cs where d: "d < 10" and ts: "to_string k = digit_char d # cs"
    using to_string_head by blast
  have v: "digits_value 0 (to_string k @ ''B'') = k"
    by (simp add: digits_value_to_string digit_of_B)
  have "dropWhile is_space (to_string k @ ''B'') = to_string k @ ''B''"
    using digit_char_facts [OF d] by (simp add: ts)
  then show ?thesis
    using digit_char_facts [OF d] v assms
    unfolding stoull_def Let_def by (simp add: ts)
qed

lemma find_thinpool_size:
  "size_pISO cfg s =
     (case find (\<lambda>v. lv_name v = THINPOOL_NAME cfg) (volumes s) of
        None \<Rightarrow> Inl (Fatal ''lvm_lvs_report'') | Some v \<Rightarrow> stoull (lv_size v))"
  by (simp add: size_pISO_def lvm_lvs_report_of_def Let_def split: option.splits)

subsection \<open>The concrete configuration evaluated\<close>

lemma demo_items: "m_list_items (construct_pISO demo_volumes) = [DriveRef 0] @ NewDriveRef # [OptionsRef]"
  by code_simp

lemma dp: "decimal_parts ''25.00'' = Some (2500, 2)"
  by code_simp

lemma dp150: "decimal_parts ''150.00'' = Some (15000, 2)"
  by code_simp

lemma demo_percent_used: "percent_used demo_config (construct_pISO demo_volumes) = Inr 25"
  by (simp add: percent_used_def lvm_lvs_report_def construct_pISO_def init_pISO_def demo_volumes_def demo_config_def stof_decimal_def dp)

lemma takeWhile_until: "x \<notin> set a \<Longrightarrow> takeWhile (\<lambda>c. c \<noteq> x) (a @ x # b) = a"
  by (induction a) auto

lemma getline_first: "CHR 0x0A \<notin> set a \<Longrightarrow> getline (a @ CHR 0x0A # b) = a"
  unfolding getline_def by (rule takeWhile_until)

lemma takeWhile_all: "x \<notin> set a \<Longrightarrow> takeWhile (\<lambda>c. c \<noteq> x) a = a"
  by (induction a) auto

lemma getline_only: "CHR 0x0A \<notin> set a \<Longrightarrow> getline a = a"
  unfolding getline_def by (rule takeWhile_all)

section \<open>The claims\<close>

text \<open>
  C1, as the code has it. \<open>add_drive\<close> calls the new drive \<open>Drive\<close>\<open>N\<close>, where \<open>N\<close> is the
  number of live drives plus one, and appends it to the live drives; it is fatal when the
  backend already holds a volume of that name, and returns when it does not. From every
  state whose live drives have pairwise different names, each the name of a volume of the
  backend, and so from the state the constructor leaves on every backend whose virtual
  volumes have different names, every run of \<open>add_drive\<close> and \<open>remove_drive\<close> keeps the names of
  the live drives pairwise different in every state it passes through. Nothing keeps the
  name of a deleted drive from being given out again.
\<close>

theorem live_drive_names_distinct:
  "(add_drive cfg sz f out s = Inr (d, s') \<longrightarrow>
      name d = ''Drive'' @ to_string (length (m_drives s) + 1)
      \<and> drive_names s' = drive_names s @ [name d])
   \<and> (''Drive'' @ to_string (length (m_drives s) + 1) \<in> set (map lv_name (volumes s)) \<longrightarrow>
        (\<exists>e. add_drive cfg sz f out s = Inl e))
   \<and> (''Drive'' @ to_string (length (m_drives s) + 1) \<notin> set (map lv_name (volumes s)) \<longrightarrow>
        (\<exists>r. add_drive cfg sz f out s = Inr r))
   \<and> (distinct (drive_names s) \<and> set (drive_names s) \<subseteq> set (map lv_name (volumes s)) \<longrightarrow>
        (\<forall>t \<in> set (states cfg ops s). distinct (drive_names t)))
   \<and> (distinct (map lv_name (filter is_virtual vs)) \<longrightarrow>
        (\<forall>t \<in> set (states cfg ops (construct_pISO vs)). distinct (drive_names t)))"
proof (intro conjI impI)
  assume a: "add_drive cfg sz f out s = Inr (d, s')"
  show "name d = ''Drive'' @ to_string (length (m_drives s) + 1)"
    using add_drive_result [OF a] by (simp add: next_name_def)
  show "drive_names s' = drive_names s @ [name d]"
    using add_drive_result [OF a] add_drive_names [OF a] by simp
next
  assume "''Drive'' @ to_string (length (m_drives s) + 1) \<in> set (map lv_name (volumes s))"
  then show "\<exists>e. add_drive cfg sz f out s = Inl e"
    using add_drive_refused [of s cfg sz f out] by (simp add: next_name_def)
next
  assume "''Drive'' @ to_string (length (m_drives s) + 1) \<notin> set (map lv_name (volumes s))"
  then show "\<exists>r. add_drive cfg sz f out s = Inr r"
    using add_drive_returns [of s cfg sz f out] by (auto simp: next_name_def)
next
  assume "distinct (drive_names s) \<and> set (drive_names s) \<subseteq> set (map lv_name (volumes s))"
  then have "names_backed s"
    by (simp add: names_backed_def)
  from names_backed_states [OF this, of cfg ops]
  show "\<forall>t \<in> set (states cfg ops s). distinct (drive_names t)"
    by (simp add: names_backed_def)
next
  assume "distinct (map lv_name (filter is_virtual vs))"
  then have "names_backed (construct_pISO vs)"
    by (rule names_backed_construct)
  from names_backed_states [OF this, of cfg ops]
  show "\<forall>t \<in> set (states cfg ops (construct_pISO vs)). distinct (drive_names t)"
    by (simp add: names_backed_def)
qed

text \<open>
  Three drives, the first of which is removed: the next name, \<open>Drive3\<close>, is live, the
  addition is fatal and the run ends with the two drives left. A backend that holds \<open>Drive2\<close>
  only: the addition is fatal at once. And two additions to the one drive \<open>Drive1\<close>.
\<close>

theorem live_drive_names_distinct_witness:
  "distinct (map lv_name (filter is_virtual demo_volumes3))
   \<and> map drive_names (states demo_config
        [RemoveDrive (new_VirtualDrive ''Drive1''), AddDrive 2000 WINDOWS demo_loopback_res,
         AddDrive 1000 LINUX demo_loopback_res]
        (construct_pISO demo_volumes3)) =
       [[''Drive1'', ''Drive2'', ''Drive3''], [''Drive2'', ''Drive3'']]
   \<and> list_all (\<lambda>t. distinct (drive_names t)) (states demo_config
        [RemoveDrive (new_VirtualDrive ''Drive1''), AddDrive 2000 WINDOWS demo_loopback_res,
         AddDrive 1000 LINUX demo_loopback_res]
        (construct_pISO demo_volumes3))
   \<and> ''Drive'' @ to_string (length (m_drives (construct_pISO demo_volumes_gap)) + 1)
        \<in> set (map lv_name (volumes (construct_pISO demo_volumes_gap)))
   \<and> (\<exists>e. add_drive demo_config 2000 WINDOWS demo_loopback_res (construct_pISO demo_volumes_gap) = Inl e)
   \<and> distinct (drive_names (construct_pISO demo_volumes))
   \<and> set (drive_names (construct_pISO demo_volumes)) \<subseteq> set (map lv_name (volumes (construct_pISO demo_volumes)))
   \<and> map drive_names (states demo_config
        [AddDrive 2000 WINDOWS demo_loopback_res, AddDrive 1000 LINUX demo_loopback_res]
        (construct_pISO demo_volumes)) =
       [[''Drive1''], [''Drive1'', ''Drive2''], [''Drive1'', ''Drive2'', ''Drive3'']]
   \<and> list_all (\<lambda>t. distinct (drive_names t)) (states demo_config
        [AddDrive 2000 WINDOWS demo_loopback_res, AddDrive 1000 LINUX demo_loopback_res]
        (construct_pISO demo_volumes))
   \<and> ''Drive'' @ to_string (length (m_drives (construct_pISO demo_volumes)) + 1)
        \<notin> set (map lv_name (volumes (construct_pISO demo_volumes)))
   \<and> (\<exists>d s'. add_drive demo_config 2000 WINDOWS demo_loopback_res (construct_pISO demo_volumes) = Inr (d, s')
          \<and> name d = ''Drive2'' \<and> drive_names s' = [''Drive1'', ''Drive2''])"
proof -
  let ?ops3 = "[RemoveDrive (new_VirtualDrive ''Drive1''), AddDrive 2000 WINDOWS demo_loopback_res,
         AddDrive 1000 LINUX demo_loopback_res]"
  let ?adds = "[AddDrive 2000 WINDOWS demo_loopback_res, AddDrive 1000 LINUX demo_loopback_res]"
  note t = live_drive_names_distinct [where cfg = demo_config and sz = 2000 and f = WINDOWS
      and out = demo_loopback_res]
  have v3: "distinct (map lv_name (filter is_virtual demo_volumes3))"
    by code_simp
  have m3: "map drive_names (states demo_config ?ops3 (construct_pISO demo_volumes3)) =
       [[''Drive1'', ''Drive2'', ''Drive3''], [''Drive2'', ''Drive3'']]"
    by code_simp
  have a3: "list_all (\<lambda>t. distinct (drive_names t)) (states demo_config ?ops3 (construct_pISO demo_volumes3))"
    using t [where ops = ?ops3 and vs = demo_volumes3] v3 unfolding list_all_iff by blast
  have g: "''Drive'' @ to_string (length (m_drives (construct_pISO demo_volumes_gap)) + 1)
        \<in> set (map lv_name (volumes (construct_pISO demo_volumes_gap)))"
    by code_simp
  have ge: "\<exists>e. add_drive demo_config 2000 WINDOWS demo_loopback_res (construct_pISO demo_volumes_gap) = Inl e"
    using t [where s = "construct_pISO demo_volumes_gap"] g by blast
  have d1: "distinct (drive_names (construct_pISO demo_volumes))"
    by code_simp
  have b1: "set (drive_names (construct_pISO demo_volumes)) \<subseteq> set (map lv_name (volumes (construct_pISO demo_volumes)))"
    by code_simp
  have m1: "map drive_names (states demo_config ?adds (construct_pISO demo_volumes)) =
       [[''Drive1''], [''Drive1'', ''Drive2''], [''Drive1'', ''Drive2'', ''Drive3'']]"
    by code_simp
  have a1: "list_all (\<lambda>t. distinct (drive_names t)) (states demo_config ?adds (construct_pISO demo_volumes))"
    using t [where ops = ?adds and s = "construct_pISO demo_volumes"] d1 b1 unfolding list_all_iff by blast
  have f1: "''Drive'' @ to_string (length (m_drives (construct_pISO demo_volumes)) + 1)
        \<notin> set (map lv_name (volumes (construct_pISO demo_volumes)))"
    by code_simp
  have n1: "''Drive'' @ to_string (length (m_drives (construct_pISO demo_volumes)) + 1) = ''Drive2''"
    by code_simp
  have dn: "drive_names (construct_pISO demo_volumes) = [''Drive1'']"
    by code_simp
  from t [where s = "construct_pISO demo_volumes"] f1
  obtain r where "add_drive demo_config 2000 WINDOWS demo_loopback_res (construct_pISO demo_volumes) = Inr r"
    by blast
  then obtain d s' where r: "add_drive demo_config 2000 WINDOWS demo_loopback_res (construct_pISO demo_volumes) = Inr (d, s')"
    by (cases r) auto
  from t [where s = "construct_pISO demo_volumes" and d = d and s' = s'] r
  have nd0: "name d = ''Drive'' @ to_string (length (m_drives (construct_pISO demo_volumes)) + 1)"
    and ds0: "drive_names s' = drive_names (construct_pISO demo_volumes) @ [name d]"
    by blast+
  have nd: "name d = ''Drive2''"
    using nd0 unfolding n1 .
  have ds: "drive_names s' = [''Drive1'', ''Drive2'']"
    using ds0 unfolding dn nd by simp
  from r nd ds have e1: "\<exists>d s'. add_drive demo_config 2000 WINDOWS demo_loopback_res (construct_pISO demo_volumes) = Inr (d, s')
          \<and> name d = ''Drive2'' \<and> drive_names s' = [''Drive1'', ''Drive2'']"
    by blast
  show ?thesis
    using v3 m3 a3 g ge d1 b1 m1 a1 f1 e1 by (intro conjI)
qed

text \<open>
  The name of a deleted drive is given out again: from the empty backend, the first drive
  is \<open>Drive1\<close>; once it has been removed no drive and no volume is left, and the next drive
  is \<open>Drive1\<close> too.
\<close>

theorem add_drive_reuses_name_after_removal:
  "map drive_names (states demo_config
        [AddDrive 1000 LINUX demo_loopback_res,
         RemoveDrive \<lparr>name = ''Drive1'', mount_state = MOUNTED_EXTERNAL, drive_focus = True\<rparr>,
         AddDrive 2000 WINDOWS demo_loopback_res]
        (construct_pISO [])) =
     [[], [''Drive1''], [], [''Drive1'']]
   \<and> map (\<lambda>t. map lv_name (volumes t)) (states demo_config
        [AddDrive 1000 LINUX demo_loopback_res,
         RemoveDrive \<lparr>name = ''Drive1'', mount_state = MOUNTED_EXTERNAL, drive_focus = True\<rparr>,
         AddDrive 2000 WINDOWS demo_loopback_res]
        (construct_pISO [])) =
     [[], [''Drive1''], [], [''Drive1'']]"
  by code_simp

text \<open>
  C2. After a list rebuild (\<open>update_list_items\<close>, from any state) every item of the new
  sequence has received \<open>on_lose_focus\<close>, in the order of the sequence, and then the first
  item has received \<open>on_focus\<close>; the cursor is at the first element; the sequence is not
  empty and has no item twice; and the first element is the one and only item that has the
  focus.
\<close>

theorem rebuild_focus_invariant:
  "gui_calls (update_list_items s) =
     gui_calls s @ map OnLoseFocus (m_list_items (update_list_items s))
       @ [OnFocus (m_list_items (update_list_items s) ! 0)]
   \<and> m_selection (update_list_items s) = 0
   \<and> m_list_items (update_list_items s) \<noteq> []
   \<and> distinct (m_list_items (update_list_items s))
   \<and> (\<forall>q. has_focus (update_list_items s) q = (q = m_list_items (update_list_items s) ! 0))"
  using update_list_items_gui_calls [of s] update_list_items_nonempty [of s]
    update_list_items_distinct [of s] has_focus_update_list_items [of s]
  by simp

text \<open>
  C3. \<open>remove_drive\<close> of a drive whose name no live drive has changes nothing but the log,
  which gains the line that announces the removal and the warning: the drives, the item
  list, the cursor, the backend's volumes and the commands issued are as before. For a
  drive whose name is live, the first drive of that name, at position \<open>i\<close>, is the one
  removed: the drives before it and the drives after it stay, in their order and with their
  mount states; one \<open>lvremove\<close> command is issued and the backend's volumes of that name are
  gone, the others stay; and the result is \<open>update_list_items\<close> of the state with that one
  entry taken out.
\<close>

theorem remove_drive_absent_or_present:
  "(name x \<notin> set (drive_names s) \<longrightarrow>
      remove_drive cfg x s =
        Inr (s\<lparr>log_lines := log_lines s @ [''Removing drive '' @ name x, ''Warning: drive not found'']\<rparr>))
   \<and> (name x \<in> set (drive_names s) \<longrightarrow>
        (\<exists>i t. i < length (m_drives s)
            \<and> name (m_drives s ! i) = name x
            \<and> name x \<notin> set (take i (drive_names s))
            \<and> m_drives t = take i (m_drives s) @ drop (Suc i) (m_drives s)
            \<and> remove_drive cfg x s = Inr (update_list_items t)
            \<and> drive_names (update_list_items t) = take i (drive_names s) @ drop (Suc i) (drive_names s)
            \<and> map mount_state (m_drives (update_list_items t)) =
                take i (map mount_state (m_drives s)) @ drop (Suc i) (map mount_state (m_drives s))
            \<and> volumes (update_list_items t) = filter (\<lambda>v. lv_name v \<noteq> name x) (volumes s)
            \<and> calls (update_list_items t) =
                calls s @ [Lvm (''lvremove '' @ VOLUME_GROUP_NAME cfg @ ''/'' @ name x @ '' -y'')]))"
proof (intro conjI impI)
  assume "name x \<notin> set (drive_names s)"
  then show "remove_drive cfg x s =
        Inr (s\<lparr>log_lines := log_lines s @ [''Removing drive '' @ name x, ''Warning: drive not found'']\<rparr>)"
    by (rule remove_drive_absent)
next
  assume "name x \<in> set (drive_names s)"
  then obtain i where i: "find_drive (m_drives s) x = Some i"
    using find_drive_None [of "m_drives s" x] by (auto simp: drive_names_def)
  let ?t = "s\<lparr>log_lines := log_lines s @ [''Removing drive '' @ name x],
                volumes := filter (\<lambda>v. lv_name v \<noteq> name x) (volumes s),
                calls := calls s @ [Lvm (''lvremove '' @ VOLUME_GROUP_NAME cfg @ ''/'' @ name x @ '' -y'')],
                m_drives := take i (m_drives s) @ drop (Suc i) (m_drives s)\<rparr>"
  have r: "remove_drive cfg x s = Inr (update_list_items ?t)"
    by (rule remove_drive_present [OF i])
  have "i < length (m_drives s)
            \<and> name (m_drives s ! i) = name x
            \<and> name x \<notin> set (take i (drive_names s))
            \<and> m_drives ?t = take i (m_drives s) @ drop (Suc i) (m_drives s)
            \<and> remove_drive cfg x s = Inr (update_list_items ?t)
            \<and> drive_names (update_list_items ?t) = take i (drive_names s) @ drop (Suc i) (drive_names s)
            \<and> map mount_state (m_drives (update_list_items ?t)) =
                take i (map mount_state (m_drives s)) @ drop (Suc i) (map mount_state (m_drives s))
            \<and> volumes (update_list_items ?t) = filter (\<lambda>v. lv_name v \<noteq> name x) (volumes s)
            \<and> calls (update_list_items ?t) =
                calls s @ [Lvm (''lvremove '' @ VOLUME_GROUP_NAME cfg @ ''/'' @ name x @ '' -y'')]"
    using find_drive_Some [OF i] by (simp add: r drive_names_def take_map drop_map)
  then show "\<exists>i t. i < length (m_drives s)
            \<and> name (m_drives s ! i) = name x
            \<and> name x \<notin> set (take i (drive_names s))
            \<and> m_drives t = take i (m_drives s) @ drop (Suc i) (m_drives s)
            \<and> remove_drive cfg x s = Inr (update_list_items t)
            \<and> drive_names (update_list_items t) = take i (drive_names s) @ drop (Suc i) (drive_names s)
            \<and> map mount_state (m_drives (update_list_items t)) =
                take i (map mount_state (m_drives s)) @ drop (Suc i) (map mount_state (m_drives s))
            \<and> volumes (update_list_items t) = filter (\<lambda>v. lv_name v \<noteq> name x) (volumes s)
            \<and> calls (update_list_items t) =
                calls s @ [Lvm (''lvremove '' @ VOLUME_GROUP_NAME cfg @ ''/'' @ name x @ '' -y'')]"
    by blast
qed

text \<open>
  Both cases on the backend that holds \<open>Drive1\<close>, \<open>Drive2\<close> and \<open>Drive3\<close>: removing \<open>Drive7\<close>
  only logs; removing \<open>Drive2\<close> issues the command and leaves \<open>Drive1\<close> and \<open>Drive3\<close>, as
  drives and as volumes.
\<close>

theorem remove_drive_absent_or_present_witness:
  "name (new_VirtualDrive ''Drive7'') \<notin> set (drive_names (construct_pISO demo_volumes3))
   \<and> remove_drive demo_config (new_VirtualDrive ''Drive7'') (construct_pISO demo_volumes3) =
       Inr ((construct_pISO demo_volumes3)
         \<lparr>log_lines := log_lines (construct_pISO demo_volumes3)
            @ [''Removing drive Drive7'', ''Warning: drive not found'']\<rparr>)
   \<and> drive_names (construct_pISO demo_volumes3) = [''Drive1'', ''Drive2'', ''Drive3'']
   \<and> name (new_VirtualDrive ''Drive2'') \<in> set (drive_names (construct_pISO demo_volumes3))
   \<and> (\<exists>s'. remove_drive demo_config (new_VirtualDrive ''Drive2'') (construct_pISO demo_volumes3) = Inr s'
         \<and> drive_names s' = [''Drive1'', ''Drive3'']
         \<and> map lv_name (volumes s') = [''thinpool'', ''Drive1'', ''Drive3'']
         \<and> calls s' = [Lvm ''lvremove VolGroup00/Drive2 -y''])"
proof -
  let ?s = "construct_pISO demo_volumes3"
  have names: "drive_names ?s = [''Drive1'', ''Drive2'', ''Drive3'']"
    by code_simp
  have vols: "map lv_name (filter (\<lambda>v. lv_name v \<noteq> ''Drive2'') (volumes ?s)) = [''thinpool'', ''Drive1'', ''Drive3'']"
    by code_simp
  have c0: "calls ?s = []"
    by code_simp
  have absent: "name (new_VirtualDrive ''Drive7'') \<notin> set (drive_names ?s)"
    by (simp add: names new_VirtualDrive_def)
  have present: "name (new_VirtualDrive ''Drive2'') \<in> set (drive_names ?s)"
    by (simp add: names new_VirtualDrive_def)
  have a: "remove_drive demo_config (new_VirtualDrive ''Drive7'') ?s =
       Inr (?s\<lparr>log_lines := log_lines ?s @ [''Removing drive Drive7'', ''Warning: drive not found'']\<rparr>)"
    using remove_drive_absent_or_present [of "new_VirtualDrive ''Drive7''" ?s demo_config] absent
    by (simp add: new_VirtualDrive_def)
  from remove_drive_absent_or_present [of "new_VirtualDrive ''Drive2''" ?s demo_config] present
  obtain i t where i: "i < length (m_drives ?s)"
    and r: "remove_drive demo_config (new_VirtualDrive ''Drive2'') ?s = Inr (update_list_items t)"
    and n: "drive_names (update_list_items t) = take i (drive_names ?s) @ drop (Suc i) (drive_names ?s)"
    and v: "volumes (update_list_items t) =
              filter (\<lambda>v. lv_name v \<noteq> name (new_VirtualDrive ''Drive2'')) (volumes ?s)"
    and c: "calls (update_list_items t) =
              calls ?s @ [Lvm (''lvremove '' @ VOLUME_GROUP_NAME demo_config @ ''/''
                  @ name (new_VirtualDrive ''Drive2'') @ '' -y'')]"
    and e: "name (m_drives ?s ! i) = name (new_VirtualDrive ''Drive2'')"
    by blast
  have "drive_names ?s ! i = ''Drive2''"
    using e i by (simp add: drive_names_def new_VirtualDrive_def)
  moreover have "i < 3"
    using i arg_cong [OF names, of length] by (simp add: drive_names_def)
  ultimately have "i = 1"
    unfolding names by (cases i rule: nat.exhaust) (auto simp: nth_Cons split: nat.splits)
  with n have n': "drive_names (update_list_items t) = [''Drive1'', ''Drive3'']"
    by (simp add: names)
  have v': "map lv_name (volumes (update_list_items t)) = [''thinpool'', ''Drive1'', ''Drive3'']"
    using vols unfolding v by (simp add: new_VirtualDrive_def)
  have c': "calls (update_list_items t) = [Lvm ''lvremove VolGroup00/Drive2 -y'']"
    unfolding c c0 by (simp add: demo_config_def new_VirtualDrive_def)
  have p: "\<exists>s'. remove_drive demo_config (new_VirtualDrive ''Drive2'') ?s = Inr s'
         \<and> drive_names s' = [''Drive1'', ''Drive3'']
         \<and> map lv_name (volumes s') = [''thinpool'', ''Drive1'', ''Drive3'']
         \<and> calls s' = [Lvm ''lvremove VolGroup00/Drive2 -y'']"
    by (rule exI [of _ "update_list_items t"]) (intro conjI r n' v' c')
  show ?thesis
    by (intro conjI absent a names present p)
qed

text \<open>
  C4. When the item list is \<open>pre\<close>, then \<open>k\<close>, then \<open>post\<close>, the item \<open>k\<close> asks for the full
  screen and no item of \<open>pre\<close> does, \<open>render\<close> returns exactly what \<open>k\<close> has drawn, with the
  mode \<open>k\<close> reports: whatever \<open>pre\<close> and \<open>post\<close> are and whatever their items draw, and with
  no query to the backend.
\<close>

theorem render_fullscreen_short_circuit:
  assumes "m_list_items s = pre @ k # post"
    and "\<forall>r \<in> set pre. snd (rend r) \<noteq> FULLSCREEN"
    and "snd (rend k) = FULLSCREEN"
  shows "render cfg rend s = Inr (rend k)"
  using render_loop_fullscreen [OF assms(2,3), of cfg post "new_Bitmap 0 0"] assms(1)
  by (simp add: render_def)

text \<open>
  The menu with one drive, where the second item, the new-drive item, shows its dialog.
\<close>

theorem render_fullscreen_short_circuit_witness:
  "m_list_items (construct_pISO demo_volumes) = [DriveRef 0] @ NewDriveRef # [OptionsRef]
   \<and> snd (demo_rend_dialog (DriveRef 0)) \<noteq> FULLSCREEN
   \<and> snd (demo_rend_dialog NewDriveRef) = FULLSCREEN
   \<and> render demo_config demo_rend_dialog (construct_pISO demo_volumes) = Inr (new_Bitmap 100 40, FULLSCREEN)"
proof -
  have p: "\<forall>r \<in> set [DriveRef 0]. snd (demo_rend_dialog r) \<noteq> FULLSCREEN"
    by (simp add: demo_rend_dialog_def)
  have k: "snd (demo_rend_dialog NewDriveRef) = FULLSCREEN"
    by (simp add: demo_rend_dialog_def)
  have v: "demo_rend_dialog NewDriveRef = (new_Bitmap 100 40, FULLSCREEN)"
    by (simp add: demo_rend_dialog_def)
  have r: "render demo_config demo_rend_dialog (construct_pISO demo_volumes) = Inr (new_Bitmap 100 40, FULLSCREEN)"
    using render_fullscreen_short_circuit [OF demo_items p k, of demo_config] unfolding v .
  from p have "snd (demo_rend_dialog (DriveRef 0)) \<noteq> FULLSCREEN"
    by simp
  with demo_items k r show ?thesis
    by (intro conjI)
qed



text \<open>
  C6. The commands \<open>add_drive\<close> issues are, in this order: the creation of the volume; \<open>parted\<close>
  on the new block device \<open>/dev/\<close>group\<open>/\<close>name with one primary partition whose file-system
  hint is the one the specification's table gives for the format (\<open>ntfs\<close> for WINDOWS, MAC and
  UNIVERSAL, \<open>ext3\<close> for LINUX); the helper script that binds the partition; and \<open>mkfs\<close> for the
  file system the specification's table gives (\<open>ntfs\<close> for WINDOWS, \<open>ext3\<close> for LINUX,
  \<open>exfat\<close> for MAC and UNIVERSAL) on the first partition device the helper script has
  printed: the text before the first newline of its output, or all of the output when it
  has no newline.
\<close>

theorem add_drive_partition_and_format:
  "(CHR 0x0A \<notin> set first_partition
      \<and> add_drive cfg sz f (first_partition @ CHR 0x0A # later_lines) s = Inr (d, s') \<longrightarrow>
      calls s' =
        calls s @
        [Lvm (''lvcreate -V '' @ to_string (unat sz) @ ''B -T '' @ VOLUME_GROUP_NAME cfg @ ''/''
               @ THINPOOL_NAME cfg @ '' -n '' @ name d),
         Shell (''parted --script /dev/'' @ VOLUME_GROUP_NAME cfg @ ''/'' @ name d
               @ '' '' @ [CHR 0x5C, CHR 0x0A] @ '' mklabel msdos '' @ [CHR 0x5C, CHR 0x0A]
               @ '' mkpart primary '' @ spec_partition_hint f @ '' 0% 100%''),
         Shell (''sh '' @ PISO_SCRIPTS_PATH cfg @ ''/vdrive.sh mount-internal-basic '' @ name d),
         Shell (''mkfs.'' @ spec_filesystem f @ (if f = WINDOWS then '' -f '' else '' '')
               @ first_partition)])
   \<and> (CHR 0x0A \<notin> set out \<and> add_drive cfg sz f out s = Inr (d, s') \<longrightarrow>
      calls s' =
        calls s @
        [Lvm (''lvcreate -V '' @ to_string (unat sz) @ ''B -T '' @ VOLUME_GROUP_NAME cfg @ ''/''
               @ THINPOOL_NAME cfg @ '' -n '' @ name d),
         Shell (''parted --script /dev/'' @ VOLUME_GROUP_NAME cfg @ ''/'' @ name d
               @ '' '' @ [CHR 0x5C, CHR 0x0A] @ '' mklabel msdos '' @ [CHR 0x5C, CHR 0x0A]
               @ '' mkpart primary '' @ spec_partition_hint f @ '' 0% 100%''),
         Shell (''sh '' @ PISO_SCRIPTS_PATH cfg @ ''/vdrive.sh mount-internal-basic '' @ name d),
         Shell (''mkfs.'' @ spec_filesystem f @ (if f = WINDOWS then '' -f '' else '' '') @ out)])"
proof -
  have c: "calls s' =
        calls s @
        [Lvm (''lvcreate -V '' @ to_string (unat sz) @ ''B -T '' @ VOLUME_GROUP_NAME cfg @ ''/''
               @ THINPOOL_NAME cfg @ '' -n '' @ name d),
         Shell (''parted --script /dev/'' @ VOLUME_GROUP_NAME cfg @ ''/'' @ name d
               @ '' '' @ [CHR 0x5C, CHR 0x0A] @ '' mklabel msdos '' @ [CHR 0x5C, CHR 0x0A]
               @ '' mkpart primary '' @ spec_partition_hint f @ '' 0% 100%''),
         Shell (''sh '' @ PISO_SCRIPTS_PATH cfg @ ''/vdrive.sh mount-internal-basic '' @ name d),
         Shell (''mkfs.'' @ spec_filesystem f @ (if f = WINDOWS then '' -f '' else '' '') @ getline res)]"
    if a: "add_drive cfg sz f res s = Inr (d, s')" for res
  proof -
    have n: "name d = ''Drive'' @ to_string (length (m_drives s) + 1)"
      using add_drive_result [OF a] by (simp add: next_name_def)
    show ?thesis
      unfolding n using a
      by (cases f)
        (auto simp: add_drive_def Let_def piso_log_def lvm_run_def create_volume_def
          run_command_def backslash_newline_def split: if_splits)
  qed
  show ?thesis
    using c [of "first_partition @ CHR 0x0A # later_lines"] c [of out]
    by (auto simp: getline_first getline_only simp del: char.simps)
qed

text \<open>
  A LINUX drive where the helper script prints two partition devices, one to a line, and
  a WINDOWS drive where it prints one device and no newline: the first device is formatted.
\<close>

theorem add_drive_partition_and_format_witness:
  "CHR 0x0A \<notin> set ''/dev/mapper/loop0p1''
   \<and> demo_loopback_res = ''/dev/mapper/loop0p1'' @ CHR 0x0A # (''/dev/mapper/loop0p2'' @ [CHR 0x0A])
   \<and> (\<exists>d s'. add_drive demo_config 1000 LINUX demo_loopback_res (construct_pISO []) = Inr (d, s')
         \<and> calls s' =
             [Lvm ''lvcreate -V 1000B -T VolGroup00/thinpool -n Drive1'',
              Shell (''parted --script /dev/VolGroup00/Drive1 '' @ [CHR 0x5C, CHR 0x0A]
                     @ '' mklabel msdos '' @ [CHR 0x5C, CHR 0x0A] @ '' mkpart primary ext3 0% 100%''),
              Shell ''sh /opt/piso_scripts/vdrive.sh mount-internal-basic Drive1'',
              Shell ''mkfs.ext3 /dev/mapper/loop0p1''])
   \<and> (\<exists>d s'. add_drive demo_config 1000 WINDOWS ''/dev/mapper/loop0p1'' (construct_pISO []) = Inr (d, s')
         \<and> calls s' =
             [Lvm ''lvcreate -V 1000B -T VolGroup00/thinpool -n Drive1'',
              Shell (''parted --script /dev/VolGroup00/Drive1 '' @ [CHR 0x5C, CHR 0x0A]
                     @ '' mklabel msdos '' @ [CHR 0x5C, CHR 0x0A] @ '' mkpart primary ntfs 0% 100%''),
              Shell ''sh /opt/piso_scripts/vdrive.sh mount-internal-basic Drive1'',
              Shell ''mkfs.ntfs -f /dev/mapper/loop0p1''])"
proof -
  let ?s = "construct_pISO []"
  have nl: "CHR 0x0A \<notin> set ''/dev/mapper/loop0p1''"
    by code_simp
  have o: "demo_loopback_res = ''/dev/mapper/loop0p1'' @ CHR 0x0A # (''/dev/mapper/loop0p2'' @ [CHR 0x0A])"
    by (simp add: demo_loopback_res_def)
  have fresh: "next_name ?s \<notin> set (map lv_name (volumes ?s))"
    by code_simp
  have c0: "calls ?s = []"
    by code_simp
  have sz: "to_string (unat (1000 :: 64 word)) = ''1000''"
    by code_simp
  have nn: "next_name ?s = ''Drive1''"
    by code_simp
  have 1: "\<exists>d s'. add_drive demo_config 1000 LINUX demo_loopback_res ?s = Inr (d, s')
         \<and> calls s' =
             [Lvm ''lvcreate -V 1000B -T VolGroup00/thinpool -n Drive1'',
              Shell (''parted --script /dev/VolGroup00/Drive1 '' @ [CHR 0x5C, CHR 0x0A]
                     @ '' mklabel msdos '' @ [CHR 0x5C, CHR 0x0A] @ '' mkpart primary ext3 0% 100%''),
              Shell ''sh /opt/piso_scripts/vdrive.sh mount-internal-basic Drive1'',
              Shell ''mkfs.ext3 /dev/mapper/loop0p1'']"
  proof -
    obtain d s' where a: "add_drive demo_config 1000 LINUX demo_loopback_res ?s = Inr (d, s')"
      using add_drive_returns [OF fresh] by blast
    have n: "name d = ''Drive1''"
      using add_drive_result [OF a] by (simp add: nn)
    from add_drive_partition_and_format [where cfg = demo_config and sz = 1000 and f = LINUX
        and first_partition = "''/dev/mapper/loop0p1''"
        and later_lines = "''/dev/mapper/loop0p2'' @ [CHR 0x0A]" and s = ?s and d = d and s' = s',
        THEN conjunct1, THEN mp, OF conjI [OF nl a [unfolded o]]]
    have "calls s' =
             [Lvm ''lvcreate -V 1000B -T VolGroup00/thinpool -n Drive1'',
              Shell (''parted --script /dev/VolGroup00/Drive1 '' @ [CHR 0x5C, CHR 0x0A]
                     @ '' mklabel msdos '' @ [CHR 0x5C, CHR 0x0A] @ '' mkpart primary ext3 0% 100%''),
              Shell ''sh /opt/piso_scripts/vdrive.sh mount-internal-basic Drive1'',
              Shell ''mkfs.ext3 /dev/mapper/loop0p1'']"
      unfolding n c0 sz by (simp add: demo_config_def)
    with a show ?thesis by blast
  qed
  have 2: "\<exists>d s'. add_drive demo_config 1000 WINDOWS ''/dev/mapper/loop0p1'' ?s = Inr (d, s')
         \<and> calls s' =
             [Lvm ''lvcreate -V 1000B -T VolGroup00/thinpool -n Drive1'',
              Shell (''parted --script /dev/VolGroup00/Drive1 '' @ [CHR 0x5C, CHR 0x0A]
                     @ '' mklabel msdos '' @ [CHR 0x5C, CHR 0x0A] @ '' mkpart primary ntfs 0% 100%''),
              Shell ''sh /opt/piso_scripts/vdrive.sh mount-internal-basic Drive1'',
              Shell ''mkfs.ntfs -f /dev/mapper/loop0p1'']"
  proof -
    obtain d s' where a: "add_drive demo_config 1000 WINDOWS ''/dev/mapper/loop0p1'' ?s = Inr (d, s')"
      using add_drive_returns [OF fresh] by blast
    have n: "name d = ''Drive1''"
      using add_drive_result [OF a] by (simp add: nn)
    from add_drive_partition_and_format [where cfg = demo_config and sz = 1000 and f = WINDOWS
        and out = "''/dev/mapper/loop0p1''" and s = ?s and d = d and s' = s',
        THEN conjunct2, THEN mp, OF conjI [OF nl a]]
    have "calls s' =
             [Lvm ''lvcreate -V 1000B -T VolGroup00/thinpool -n Drive1'',
              Shell (''parted --script /dev/VolGroup00/Drive1 '' @ [CHR 0x5C, CHR 0x0A]
                     @ '' mklabel msdos '' @ [CHR 0x5C, CHR 0x0A] @ '' mkpart primary ntfs 0% 100%''),
              Shell ''sh /opt/piso_scripts/vdrive.sh mount-internal-basic Drive1'',
              Shell ''mkfs.ntfs -f /dev/mapper/loop0p1'']"
      unfolding n c0 sz by (simp add: demo_config_def)
    with a show ?thesis by blast
  qed
  show ?thesis
    by (intro conjI nl o 1 2)
qed

text \<open>
  C7, as the code has it. When no item asks for the full screen and the thin pool's usage
  can be read, \<open>render\<close> returns a frame of exactly the display's width and height with mode
  NORMAL. Left of the side bar the frame shows the stacked canvas, and what the canvas holds
  beyond the display's width or height is not in the frame. (An item that asks for the full
  screen gets its own bitmap returned, of whatever size, with mode FULLSCREEN.)
\<close>

theorem render_normal_frame_has_display_size:
  assumes "\<forall>r \<in> set (m_list_items s). snd (rend r) \<noteq> FULLSCREEN"
    and "percent_used cfg s = Inr p"
  shows "\<exists>out canvas.
           render_loop cfg rend (m_list_items s) (new_Bitmap 0 0) = Stacked canvas
           \<and> render cfg rend s = Inr (out, NORMAL)
           \<and> width out = Display_width cfg \<and> height out = Display_height cfg
           \<and> (\<forall>x y. int x < int (Display_width cfg)
                         - int (height (render_text cfg (to_string_int (percent_free_of cfg p) @ ''% Free''))
                                + SIDEBAR_SPACE cfg)
                    \<longrightarrow> get_pixel out x y =
                         (x < Display_width cfg \<and> y < Display_height cfg \<and> get_pixel canvas x y))"
proof -
  obtain canvas where c: "render_loop cfg rend (m_list_items s) (new_Bitmap 0 0) = Stacked canvas"
    using render_loop_normal [OF assms(1)] by blast
  let ?sidebar = "render_text cfg (to_string_int (percent_free_of cfg p) @ ''% Free'')"
  let ?swb = "rotate_left (blit (fill_row0 (new_Bitmap (width ?sidebar) (height ?sidebar + SIDEBAR_SPACE cfg)))
                 ?sidebar (0, int (SIDEBAR_SPACE cfg)) False)"
  let ?out1 = "blit (new_Bitmap (Display_width cfg) (Display_height cfg)) canvas (0, 0) False"
  let ?out = "blit ?out1 ?swb (int (width ?out1) - int (width ?swb), 0) False"
  have r: "render cfg rend s = Inr (?out, NORMAL)"
    by (simp add: render_def c assms(2) Let_def)
  have w: "width ?swb = height ?sidebar + SIDEBAR_SPACE cfg"
    by (simp add: rotate_left_def fill_row0_def)
  have px: "get_pixel ?out x y =
              (x < Display_width cfg \<and> y < Display_height cfg \<and> get_pixel canvas x y)"
    if "int x < int (Display_width cfg) - int (height ?sidebar + SIDEBAR_SPACE cfg)" for x y
  proof -
    have ncov: "\<not> covers ?swb (int (width ?out1) - int (width ?swb), 0) x y"
      using that unfolding covers_def w by simp
    have "get_pixel ?out x y = (x < width ?out1 \<and> y < height ?out1 \<and> get_pixel ?out1 x y)"
      unfolding get_pixel_blit [of ?out1 ?swb] using ncov by simp
    also have "get_pixel ?out1 x y =
                 (x < Display_width cfg \<and> y < Display_height cfg \<and> get_pixel canvas x y)"
      unfolding get_pixel_blit [of _ canvas] covers_origin by (auto simp: get_pixel_def new_Bitmap_def)
    finally show ?thesis by auto
  qed
  have "render_loop cfg rend (m_list_items s) (new_Bitmap 0 0) = Stacked canvas
           \<and> render cfg rend s = Inr (?out, NORMAL)
           \<and> width ?out = Display_width cfg \<and> height ?out = Display_height cfg
           \<and> (\<forall>x y. int x < int (Display_width cfg) - int (height ?sidebar + SIDEBAR_SPACE cfg)
                    \<longrightarrow> get_pixel ?out x y =
                         (x < Display_width cfg \<and> y < Display_height cfg \<and> get_pixel canvas x y))"
    using c r px by simp
  then show ?thesis by blast
qed

text \<open>
  The menu with one drive, every item a line of 36 by 8, the pool a quarter full.
\<close>

theorem render_normal_frame_has_display_size_witness:
  "list_all (\<lambda>r. snd (demo_rend_menu r) \<noteq> FULLSCREEN) (m_list_items (construct_pISO demo_volumes))
   \<and> percent_used demo_config (construct_pISO demo_volumes) = Inr 25
   \<and> (\<exists>out. render demo_config demo_rend_menu (construct_pISO demo_volumes) = Inr (out, NORMAL)
          \<and> width out = 128 \<and> height out = 64)"
proof -
  have n: "\<forall>r \<in> set (m_list_items (construct_pISO demo_volumes)). snd (demo_rend_menu r) \<noteq> FULLSCREEN"
    by (simp add: demo_rend_menu_def)
  from render_normal_frame_has_display_size [OF n demo_percent_used]
  obtain out where o: "render demo_config demo_rend_menu (construct_pISO demo_volumes) = Inr (out, NORMAL)"
    "width out = Display_width demo_config" "height out = Display_height demo_config"
    by blast
  have "Display_width demo_config = 128" "Display_height demo_config = 64"
    by (simp_all add: demo_config_def)
  with o have "\<exists>out. render demo_config demo_rend_menu (construct_pISO demo_volumes) = Inr (out, NORMAL)
          \<and> width out = 128 \<and> height out = 64"
    by auto
  moreover from n have "list_all (\<lambda>r. snd (demo_rend_menu r) \<noteq> FULLSCREEN) (m_list_items (construct_pISO demo_volumes))"
    by (simp add: list_all_iff)
  ultimately show ?thesis
    using demo_percent_used by (intro conjI)
qed

text \<open>
  With the new-drive item showing its dialog, the frame \<open>render\<close> returns is the dialog's
  bitmap of 100 by 40, not 128 by 64, and its mode is FULLSCREEN.
\<close>

theorem render_fullscreen_frame_not_display_size:
  "render demo_config demo_rend_dialog (construct_pISO demo_volumes) = Inr (new_Bitmap 100 40, FULLSCREEN)
   \<and> width (new_Bitmap 100 40) = 100 \<and> height (new_Bitmap 100 40) = 40
   \<and> Display_width demo_config = 128 \<and> Display_height demo_config = 64"
proof -
  have v: "demo_rend_dialog NewDriveRef = (new_Bitmap 100 40, FULLSCREEN)"
    by (simp add: demo_rend_dialog_def)
  have "render_loop demo_config demo_rend_dialog ([DriveRef 0] @ NewDriveRef # [OptionsRef]) (new_Bitmap 0 0)
          = Returned (demo_rend_dialog NewDriveRef)"
    by (rule render_loop_fullscreen) (simp_all add: demo_rend_dialog_def)
  then have "render demo_config demo_rend_dialog (construct_pISO demo_volumes) = Inr (new_Bitmap 100 40, FULLSCREEN)"
    unfolding render_def demo_items v by simp
  then show ?thesis
    by (simp add: demo_config_def)
qed

text \<open>
  C8, as the code has it. \<open>percent_used\<close> fails with the fatal error when the report has no
  volume named as the thin pool. When it has one, the first such volume decides:
  \<open>percent_used\<close> returns what \<open>std::stof\<close> makes of its \<open>data_percent\<close> text, the number the
  backend reports, whatever that number is; nothing in the code keeps it between 0 and 100.
  \<open>size\<close> returns the number of bytes the report gives for the pool (the text is the decimal
  number followed by the unit \<open>B\<close>), and what it returns is never negative.
\<close>

theorem percent_used_and_size:
  "(find (\<lambda>v. lv_name v = THINPOOL_NAME cfg) (volumes s) = None \<longrightarrow>
      percent_used cfg s = Inl (Fatal ''pISO: unable to locate thinpool''))
   \<and> (find (\<lambda>v. lv_name v = THINPOOL_NAME cfg) (volumes s) = Some v \<longrightarrow>
        percent_used cfg s = stof cfg (data_percent v))
   \<and> (find (\<lambda>v. lv_name v = THINPOOL_NAME cfg) (volumes s) = Some v
        \<and> lv_size v = to_string k @ ''B'' \<and> k < 2 ^ 64
        \<longrightarrow> size_pISO cfg s = Inr (word_of_nat k) \<and> unat (word_of_nat k :: 64 word) = k)
   \<and> (size_pISO cfg s = Inr n \<longrightarrow> 0 \<le> uint n)"
proof -
  have u: "unat (word_of_nat k :: 64 word) = k" if "k < 2 ^ 64"
    using that by (simp add: unsigned_of_nat take_bit_nat_eq_self)
  show ?thesis
    using u by (auto simp: percent_used_def lvm_lvs_report_def percent_used_loop_find
        find_thinpool_size stoull_bytes)
qed

text \<open>
  Without a thin pool in the backend the query is fatal; with the pool of 8589934592 bytes,
  a quarter full, the two queries return 25 and 8589934592.
\<close>

theorem percent_used_and_size_witness:
  "find (\<lambda>v. lv_name v = THINPOOL_NAME demo_config) (volumes (construct_pISO [])) = None
   \<and> percent_used demo_config (construct_pISO []) = Inl (Fatal ''pISO: unable to locate thinpool'')
   \<and> find (\<lambda>v. lv_name v = THINPOOL_NAME demo_config) (volumes (construct_pISO demo_volumes)) = Some (hd demo_volumes)
   \<and> stof demo_config (data_percent (hd demo_volumes)) = Inr 25
   \<and> percent_used demo_config (construct_pISO demo_volumes) = Inr 25
   \<and> lv_size (hd demo_volumes) = to_string 8589934592 @ ''B''
   \<and> size_pISO demo_config (construct_pISO demo_volumes) = Inr 8589934592
   \<and> uint (8589934592 :: 64 word) = 8589934592"
proof -
  have f0: "find (\<lambda>v. lv_name v = THINPOOL_NAME demo_config) (volumes (construct_pISO [])) = None"
    by code_simp
  have f1: "find (\<lambda>v. lv_name v = THINPOOL_NAME demo_config) (volumes (construct_pISO demo_volumes)) = Some (hd demo_volumes)"
    by code_simp
  have p: "stof demo_config (data_percent (hd demo_volumes)) = Inr 25"
    by (simp add: demo_config_def demo_volumes_def stof_decimal_def dp)
  have z: "lv_size (hd demo_volumes) = to_string 8589934592 @ ''B''"
    by (simp add: demo_volumes_def to_string.simps) code_simp
  have k: "(8589934592 :: nat) < 2 ^ 64"
    by simp
  note t = percent_used_and_size [of demo_config _ "hd demo_volumes" 8589934592]
  have a: "percent_used demo_config (construct_pISO []) = Inl (Fatal ''pISO: unable to locate thinpool'')"
    using t [of "construct_pISO []", THEN conjunct1] f0 by (rule mp)
  have "percent_used demo_config (construct_pISO demo_volumes) = stof demo_config (data_percent (hd demo_volumes))"
    using t [of "construct_pISO demo_volumes", THEN conjunct2, THEN conjunct1] f1
    by (rule mp)
  then have b: "percent_used demo_config (construct_pISO demo_volumes) = Inr 25"
    unfolding p .
  have c: "size_pISO demo_config (construct_pISO demo_volumes) = Inr (word_of_nat 8589934592)"
    using t [of "construct_pISO demo_volumes", THEN conjunct2, THEN conjunct2,
        THEN conjunct1, THEN mp, OF conjI [OF f1 conjI [OF z k]]]
    by (rule conjunct1)
  have u: "uint (8589934592 :: 64 word) = 8589934592"
    by simp
  have w: "(word_of_nat 8589934592 :: 64 word) = 8589934592"
    by simp
  show ?thesis
    using f0 a f1 p b z c [unfolded w] u by (intro conjI)
qed

text \<open>
  A backend whose report gives 150.00 for the thin pool, a pool that is not empty:
  \<open>percent_used\<close> returns 150, which is above 100.
\<close>

theorem percent_used_above_hundred:
  "find (\<lambda>v. lv_name v = THINPOOL_NAME demo_config) (volumes (construct_pISO demo_volumes_150)) =
     Some \<lparr>lv_name = ''thinpool'', lv_attr = ''twi-aotz--'', data_percent = ''150.00'',
           lv_size = ''8589934592B''\<rparr>
   \<and> percent_used demo_config (construct_pISO demo_volumes_150) = Inr 150
   \<and> (100 :: rat) < 150"
proof -
  have f: "find (\<lambda>v. lv_name v = THINPOOL_NAME demo_config) (volumes (construct_pISO demo_volumes_150)) =
     Some \<lparr>lv_name = ''thinpool'', lv_attr = ''twi-aotz--'', data_percent = ''150.00'',
           lv_size = ''8589934592B''\<rparr>"
    by code_simp
  have p: "percent_used demo_config (construct_pISO demo_volumes_150) = Inr 150"
    by (simp add: percent_used_def lvm_lvs_report_def construct_pISO_def init_pISO_def
        demo_volumes_150_def demo_config_def stof_decimal_def dp150)
  show ?thesis
    by (intro conjI f p) simp
qed

text \<open>
  C9. After \<open>update_list_items\<close> the item list is the pointers to the drives, in the order of
  the vector, then the new-drive item, then the options item, and the drives are the ones
  there were. \<open>rebuild_drives_from_volumes\<close> makes the drives from the volumes of the report
  whose attribute starts with \<open>V\<close>, in the order of the report, and no others; \<open>add_drive\<close>,
  when it returns, has put the new drive last and ended with \<open>update_list_items\<close>.
\<close>

theorem rebuilt_item_sequence:
  "m_list_items (update_list_items s) =
     map DriveRef [0..<length (m_drives (update_list_items s))] @ [NewDriveRef, OptionsRef]
   \<and> drive_names (update_list_items s) = drive_names s
   \<and> drive_names (rebuild_drives_from_volumes s) = map lv_name (filter is_virtual (volumes s))
   \<and> m_list_items (rebuild_drives_from_volumes s) =
       map DriveRef [0..<length (filter is_virtual (volumes s))] @ [NewDriveRef, OptionsRef]
   \<and> (add_drive cfg sz f out s = Inr (d, s') \<longrightarrow>
         drive_names s' = drive_names s @ [next_name s] \<and> (\<exists>t. s' = update_list_items t))"
proof -
  have "drive_names s' = drive_names s @ [next_name s] \<and> (\<exists>t. s' = update_list_items t)"
    if a: "add_drive cfg sz f out s = Inr (d, s')"
    using add_drive_names [OF a] add_drive_is_update [OF a] by blast
  then show ?thesis
    by (simp add: update_list_items_items drive_names_def rebuild_drive_names [unfolded drive_names_def]
        rebuild_items)
qed

text \<open>
  A drive added to the one drive \<open>Drive1\<close>: the drives and the items after it.
\<close>

theorem rebuilt_item_sequence_witness:
  "\<exists>d s'. add_drive demo_config 2000 WINDOWS demo_loopback_res (construct_pISO demo_volumes) = Inr (d, s')
      \<and> drive_names s' = [''Drive1'', ''Drive2'']
      \<and> m_list_items s' = [DriveRef 0, DriveRef 1, NewDriveRef, OptionsRef]"
proof -
  let ?s = "construct_pISO demo_volumes"
  have fresh: "next_name ?s \<notin> set (map lv_name (volumes ?s))"
    by code_simp
  have nn: "next_name ?s = ''Drive2''"
    by code_simp
  have dn: "drive_names ?s = [''Drive1'']"
    by code_simp
  obtain d s' where a: "add_drive demo_config 2000 WINDOWS demo_loopback_res ?s = Inr (d, s')"
    using add_drive_returns [OF fresh] by blast
  note t = rebuilt_item_sequence [where cfg = demo_config and sz = 2000 and f = WINDOWS
      and out = demo_loopback_res and s = ?s and d = d and s' = s']
  from t a have n0: "drive_names s' = drive_names ?s @ [next_name ?s]"
    by blast
  from t a obtain u where u: "s' = update_list_items u"
    by blast
  have n: "drive_names s' = [''Drive1'', ''Drive2'']"
    using n0 unfolding dn nn by simp
  have "length (drive_names s') = 2"
    unfolding n by simp
  then have "length (m_drives s') = 2"
    by (simp add: drive_names_def)
  moreover have "m_list_items s' = map DriveRef [0..<length (m_drives s')] @ [NewDriveRef, OptionsRef]"
    unfolding u using rebuilt_item_sequence [of u] by blast
  ultimately have "m_list_items s' = [DriveRef 0, DriveRef 1, NewDriveRef, OptionsRef]"
    by (simp add: upt_rec)
  with a n show ?thesis by blast
qed

text \<open>
  C10. After \<open>update_list_items\<close>, from any state, the item list has two items more than
  there are drives, the new-drive item and the options item among them, so it is not empty;
  there is a selection, it refers to a live item, and the last notification sent is
  \<open>on_focus\<close> to the first item, which has the focus. In every state that the constructor
  and any run of \<open>add_drive\<close> and \<open>remove_drive\<close> after it pass through, the menu is not empty
  and the cursor is valid.
\<close>

theorem menu_never_empty:
  "length (m_list_items (update_list_items s)) = length (m_drives s) + 2
   \<and> NewDriveRef \<in> set (m_list_items (update_list_items s))
   \<and> OptionsRef \<in> set (m_list_items (update_list_items s))
   \<and> has_selection (update_list_items s)
   \<and> valid_cursor (update_list_items s)
   \<and> last (gui_calls (update_list_items s)) = OnFocus (m_list_items (update_list_items s) ! 0)
   \<and> has_focus (update_list_items s) (m_list_items (update_list_items s) ! 0)
   \<and> (\<forall>vs ops. \<forall>t \<in> set (states cfg ops (construct_pISO vs)).
          m_list_items t \<noteq> [] \<and> valid_cursor t)"
proof -
  have "\<forall>vs ops. \<forall>t \<in> set (states cfg ops (construct_pISO vs)).
          m_list_items t \<noteq> [] \<and> valid_cursor t"
    using list_up_to_date_valid list_up_to_date_states [OF list_up_to_date_construct]
    by blast
  moreover have "valid_cursor (update_list_items s)"
    using list_up_to_date_valid [OF list_up_to_date_update] by blast
  moreover have "last (gui_calls (update_list_items s)) = OnFocus (m_list_items (update_list_items s) ! 0)"
    by (subst update_list_items_gui_calls) simp
  ultimately show ?thesis
    by (simp add: update_list_items_items update_list_items_has_selection
        has_focus_update_list_items [of s] del: upt_Suc)
qed

text \<open>
  A run that adds a drive and removes both drives: the item list in each of its states.
\<close>

theorem menu_never_empty_witness:
  "map m_list_items (states demo_config
      [AddDrive 2000 WINDOWS demo_loopback_res, RemoveDrive (new_VirtualDrive ''Drive1''),
       RemoveDrive (new_VirtualDrive ''Drive2'')]
      (construct_pISO demo_volumes)) =
     [[DriveRef 0, NewDriveRef, OptionsRef], [DriveRef 0, DriveRef 1, NewDriveRef, OptionsRef],
      [DriveRef 0, NewDriveRef, OptionsRef], [NewDriveRef, OptionsRef]]
   \<and> list_all (\<lambda>t. m_list_items t \<noteq> [] \<and> valid_cursor t) (states demo_config
      [AddDrive 2000 WINDOWS demo_loopback_res, RemoveDrive (new_VirtualDrive ''Drive1''),
       RemoveDrive (new_VirtualDrive ''Drive2'')]
      (construct_pISO demo_volumes))"
proof -
  let ?ops = "[AddDrive 2000 WINDOWS demo_loopback_res, RemoveDrive (new_VirtualDrive ''Drive1''),
       RemoveDrive (new_VirtualDrive ''Drive2'')]"
  have m: "map m_list_items (states demo_config ?ops (construct_pISO demo_volumes)) =
     [[DriveRef 0, NewDriveRef, OptionsRef], [DriveRef 0, DriveRef 1, NewDriveRef, OptionsRef],
      [DriveRef 0, NewDriveRef, OptionsRef], [NewDriveRef, OptionsRef]]"
    by code_simp
  have "list_all (\<lambda>t. m_list_items t \<noteq> [] \<and> valid_cursor t) (states demo_config ?ops (construct_pISO demo_volumes))"
    using menu_never_empty [of _ demo_config] unfolding list_all_iff by blast
  with m show ?thesis by (rule conjI)
qed

end
